theory Spec2Isabelle
  imports Main
begin

section \<open>The N-Quads reader of iand/nquads\<close>

text \<open>
  A shallow embedding of the reader in the second, conformant version of \<^verbatim>\<open>nquads.go\<close>
  (\<^verbatim>\<open>src/unnamed/part_000\<close>): the rune cursor, the character classifiers, the term
  lexers and \<^verbatim>\<open>Next\<close>. Every method of \<^verbatim>\<open>*Reader\<close> takes the reader and returns
  it updated, next to the values the Go method returns.
\<close>

subsection \<open>Runes, strings and errors\<close>

text \<open>
  A Go \<^verbatim>\<open>rune\<close> is an \<^verbatim>\<open>int32\<close>; it is modelled by an \<^typ>\<open>int\<close>, and \<open>int32\<close>
  below writes out the wrap-around where the code does arithmetic on runes.
  A Go \<^verbatim>\<open>string\<close> is a sequence of bytes: a \<^typ>\<open>string\<close>.
\<close>

type_synonym rune = int

abbreviation RUNE :: "char \<Rightarrow> rune" where
  "RUNE c \<equiv> of_char c"

definition int32 :: "int \<Rightarrow> rune" where
  "int32 x = (x + 2147483648) mod 4294967296 - 2147483648"

text \<open>
  Go's \<^verbatim>\<open>error\<close> values: \<^verbatim>\<open>io.EOF\<close>, \<^verbatim>\<open>bufio.ErrInvalidUnreadRune\<close>, the five
  error kinds declared by the package (\<^verbatim>\<open>ErrUnexpectedEOF\<close> is
  \<^verbatim>\<open>io.ErrUnexpectedEOF\<close>, which is not \<^verbatim>\<open>io.EOF\<close>), and \<^verbatim>\<open>*ParseError\<close> with
  its fields \<^verbatim>\<open>Line\<close>, \<^verbatim>\<open>Column\<close>, \<^verbatim>\<open>Err\<close>. A \<^verbatim>\<open>nil\<close> error is \<open>None\<close>.
\<close>

datatype error =
    EOF
  | ErrInvalidUnreadRune
  | ErrUnexpectedCharacter
  | ErrInvalidCodepointExpression
  | ErrUnexpectedEOF
  | ErrUnterminatedQuad
  | ErrRelativeIRI
  | ParseError int int error

text \<open>\<^verbatim>\<open>ParseError.Unwrap\<close>, followed to the end of the chain (what \<^verbatim>\<open>errors.Is\<close> sees).\<close>

fun errKind :: "error \<Rightarrow> error" where
  "errKind (ParseError l c e) = errKind e"
| "errKind e = e"

subsection \<open>The standard library: the buffered source and the byte buffer\<close>

text \<open>
  \<^verbatim>\<open>bufio.Reader\<close> over a finite source of valid UTF-8: \<open>pending\<close> holds the code points
  not read yet, \<open>lastRune\<close> the rune that \<^verbatim>\<open>UnreadRune\<close> may put back
  (\<^verbatim>\<open>lastRuneSize >= 0\<close>). \<^verbatim>\<open>ReadRune\<close> returns rune 0 and \<^verbatim>\<open>io.EOF\<close> at the end of
  the source; \<^verbatim>\<open>UnreadRune\<close> fails unless the last operation was a successful
  \<^verbatim>\<open>ReadRune\<close>; \<^verbatim>\<open>Peek\<close> returns the next \<open>n\<close> bytes, with \<^verbatim>\<open>io.EOF\<close> when fewer
  are left, and forbids a following \<^verbatim>\<open>UnreadRune\<close>.
\<close>

record bufio_Reader =
  pending :: "rune list"
  lastRune :: "rune option"

text \<open>\<^verbatim>\<open>utf8.AppendRune\<close>: a rune that is no Unicode scalar value is written as U+FFFD.\<close>

definition encodeRune :: "rune \<Rightarrow> string" where
  "encodeRune c =
     (if 0 \<le> c \<and> c < 0x80 then [char_of c]
      else if 0 \<le> c \<and> c < 0x800 then [char_of (0xC0 + c div 64), char_of (0x80 + c mod 64)]
      else if c < 0 \<or> 0x10FFFF < c \<or> (0xD800 \<le> c \<and> c \<le> 0xDFFF)
        then [CHR 0xEF, CHR 0xBF, CHR 0xBD]
      else if c < 0x10000
        then [char_of (0xE0 + c div 4096), char_of (0x80 + (c div 64) mod 64),
              char_of (0x80 + c mod 64)]
      else [char_of (0xF0 + c div 262144), char_of (0x80 + (c div 4096) mod 64),
            char_of (0x80 + (c div 64) mod 64), char_of (0x80 + c mod 64)])"

definition ReadRune :: "bufio_Reader \<Rightarrow> rune \<times> error option \<times> bufio_Reader" where
  "ReadRune b =
     (case pending b of
        [] \<Rightarrow> (0, Some EOF, b\<lparr>lastRune := None\<rparr>)
      | c # cs \<Rightarrow> (c, None, b\<lparr>pending := cs, lastRune := Some c\<rparr>))"

definition UnreadRune :: "bufio_Reader \<Rightarrow> error option \<times> bufio_Reader" where
  "UnreadRune b =
     (case lastRune b of
        None \<Rightarrow> (Some ErrInvalidUnreadRune, b)
      | Some c \<Rightarrow> (None, b\<lparr>pending := c # pending b, lastRune := None\<rparr>))"

definition Peek :: "nat \<Rightarrow> bufio_Reader \<Rightarrow> string \<times> error option \<times> bufio_Reader" where
  "Peek n b =
     (let bs = take n (concat (map encodeRune (pending b)))
      in (bs, if length bs < n then Some EOF else None, b\<lparr>lastRune := None\<rparr>))"

subsection \<open>Terms, quads and the reader\<close>

text \<open>
  Modelled from the spec: \<^verbatim>\<open>rdf.Term\<close> and its constructors belong to the imported
  package \<^verbatim>\<open>github.com/iand/gordf\<close>, which is not part of the sources. The spec's data
  model gives a term one of the four kinds, with a value, and for a literal a
  language or a datatype; the reader uses the fields \<^verbatim>\<open>Kind\<close>, \<^verbatim>\<open>Value\<close> and
  \<^verbatim>\<open>Datatype\<close> and the zero value \<^verbatim>\<open>rdf.Term{}\<close>, whose kind is \<^verbatim>\<open>rdf.UnknownTerm\<close>.
\<close>

datatype TermKind = UnknownTerm | IRITerm | BlankTerm | LiteralTerm

record Term =
  Value :: string
  Language :: string
  Datatype :: string
  Kind :: TermKind

definition zeroTerm :: Term where
  "zeroTerm = \<lparr>Value = [], Language = [], Datatype = [], Kind = UnknownTerm\<rparr>"

definition IRI :: "string \<Rightarrow> Term" where
  "IRI v = zeroTerm\<lparr>Value := v, Kind := IRITerm\<rparr>"

definition Blank :: "string \<Rightarrow> Term" where
  "Blank v = zeroTerm\<lparr>Value := v, Kind := BlankTerm\<rparr>"

definition Literal :: "string \<Rightarrow> Term" where
  "Literal v = zeroTerm\<lparr>Value := v, Kind := LiteralTerm\<rparr>"

definition LiteralWithLanguage :: "string \<Rightarrow> string \<Rightarrow> Term" where
  "LiteralWithLanguage v l = zeroTerm\<lparr>Value := v, Language := l, Kind := LiteralTerm\<rparr>"

definition LiteralWithDatatype :: "string \<Rightarrow> string \<Rightarrow> Term" where
  "LiteralWithDatatype v d = zeroTerm\<lparr>Value := v, Datatype := d, Kind := LiteralTerm\<rparr>"

text \<open>The object field \<^verbatim>\<open>O\<close> is written \<open>O'\<close>: \<open>O\<close> is HOL's composition of relations.\<close>

record Quad =
  S :: Term
  P :: Term
  O' :: Term
  G :: Term

definition zeroQuad :: Quad where
  "zeroQuad = \<lparr>S = zeroTerm, P = zeroTerm, O' = zeroTerm, G = zeroTerm\<rparr>"

record Reader =
  line :: int
  column :: int
  r :: bufio_Reader
  buf :: string
  err :: "error option"
  q :: Quad

definition NewReader :: "rune list \<Rightarrow> Reader" where
  "NewReader input =
     \<lparr>line = 0, column = 0, r = \<lparr>pending = input, lastRune = None\<rparr>,
      buf = [], err = None, q = zeroQuad\<rparr>"

definition wrap :: "Reader \<Rightarrow> error \<Rightarrow> error" where
  "wrap s e = ParseError (line s) (column s) e"

definition Err :: "Reader \<Rightarrow> error option" where
  "Err s = err s"

definition Quad :: "Reader \<Rightarrow> Quad" where
  "Quad s = q s"

text \<open>\<^verbatim>\<open>r.buf.WriteRune\<close>, \<^verbatim>\<open>r.buf.Reset\<close>.\<close>

definition WriteRune :: "rune \<Rightarrow> Reader \<Rightarrow> Reader" where
  "WriteRune c s = s\<lparr>buf := buf s @ encodeRune c\<rparr>"

definition Reset :: "Reader \<Rightarrow> Reader" where
  "Reset s = s\<lparr>buf := []\<rparr>"

subsection \<open>Character classifiers\<close>

definition isNumeral :: "rune \<Rightarrow> bool" where
  "isNumeral c \<longleftrightarrow> c \<ge> RUNE CHR ''0'' \<and> c \<le> RUNE CHR ''9''"

definition isAlpha :: "rune \<Rightarrow> bool" where
  "isAlpha c \<longleftrightarrow> (c \<ge> RUNE CHR ''A'' \<and> c \<le> RUNE CHR ''Z'') \<or> (c \<ge> RUNE CHR ''a'' \<and> c \<le> RUNE CHR ''z'')"

definition isSpace :: "rune \<Rightarrow> bool" where
  "isSpace c \<longleftrightarrow> c = RUNE CHR '' '' \<or> c = 0x09"

definition isPnCharsBase :: "rune \<Rightarrow> bool" where
  "isPnCharsBase c \<longleftrightarrow>
     isAlpha c
     \<or> (c \<ge> 0x00C0 \<and> c \<le> 0x00D6)
     \<or> (c \<ge> 0x00D8 \<and> c \<le> 0x00F6)
     \<or> (c \<ge> 0x00F8 \<and> c \<le> 0x02FF)
     \<or> (c \<ge> 0x0370 \<and> c \<le> 0x037D)
     \<or> (c \<ge> 0x037F \<and> c \<le> 0x1FFF)
     \<or> (c \<ge> 0x200C \<and> c \<le> 0x200D)
     \<or> (c \<ge> 0x2070 \<and> c \<le> 0x218F)
     \<or> (c \<ge> 0x2C00 \<and> c \<le> 0x2FEF)
     \<or> (c \<ge> 0x3001 \<and> c \<le> 0xD7FF)
     \<or> (c \<ge> 0xF900 \<and> c \<le> 0xFDCF)
     \<or> (c \<ge> 0xFDF0 \<and> c \<le> 0xFFFD)
     \<or> (c \<ge> 0x10000 \<and> c \<le> 0xEFFFF)"

definition isPnCharsU :: "rune \<Rightarrow> bool" where
  "isPnCharsU c \<longleftrightarrow> c = RUNE CHR ''_'' \<or> c = RUNE CHR '':'' \<or> isPnCharsBase c"

definition isPnChars :: "rune \<Rightarrow> bool" where
  "isPnChars c \<longleftrightarrow>
     c = RUNE CHR ''-'' \<or> c = 0x00B7
     \<or> isNumeral c
     \<or> isPnCharsU c
     \<or> (c \<ge> 0x0300 \<and> c \<le> 0x036F)
     \<or> (c \<ge> 0x203F \<and> c \<le> 0x2040)"

text \<open>\<^verbatim>\<open>strings.Contains(s, ":")\<close>: the one-byte string occurs in \<open>v\<close>.\<close>

definition isAbsoluteIRI :: "string \<Rightarrow> bool" where
  "isAbsoluteIRI v \<longleftrightarrow> CHR '':'' \<in> set v"

subsection \<open>The rune cursor\<close>

text \<open>
  \<^verbatim>\<open>readRune\<close>: a second \<^verbatim>\<open>ReadRune\<close> follows a carriage return; its rune and its
  error replace the first ones, and only when it succeeds with a rune other than line
  feed is that rune put back and the carriage return restored.
\<close>

definition readRune :: "Reader \<Rightarrow> rune \<times> error option \<times> Reader" where
  "readRune s =
     (case ReadRune (r s) of (r1, e1, b1) \<Rightarrow>
        if r1 = 0x0D then
          (case ReadRune b1 of (r2, e2, b2) \<Rightarrow>
             if e2 = None then
               if r2 \<noteq> 0x0A then
                 (case UnreadRune b2 of
                    (Some e3, b3) \<Rightarrow> (r2, Some e3, s\<lparr>r := b3\<rparr>)
                  | (None, b3) \<Rightarrow> (0x0D, e2, s\<lparr>r := b3, column := column s + 1\<rparr>))
               else (r2, e2, s\<lparr>r := b2, column := column s + 1\<rparr>)
             else (r2, e2, s\<lparr>r := b2, column := column s + 1\<rparr>))
        else (r1, e1, s\<lparr>r := b1, column := column s + 1\<rparr>))"

definition unreadRune :: "Reader \<Rightarrow> error option \<times> Reader" where
  "unreadRune s =
     (case UnreadRune (r s) of
        (Some e, b1) \<Rightarrow> (Some e, s\<lparr>r := b1\<rparr>)
      | (None, b1) \<Rightarrow> (None, s\<lparr>r := b1, column := column s - 1\<rparr>))"

text \<open>The runes a reader has still to deliver: the measure of every loop below.\<close>

definition remaining :: "Reader \<Rightarrow> nat" where
  "remaining s = length (pending (r s))"

lemma readRune_remaining:
  "readRune s = (r1, None, s1) \<Longrightarrow> remaining s1 < remaining s"
  by (auto simp: readRune_def ReadRune_def UnreadRune_def remaining_def
      split: list.splits if_splits prod.splits option.splits)

lemma readRune_remaining_le:
  "readRune s = (r1, e, s1) \<Longrightarrow> remaining s1 \<le> remaining s"
  by (auto simp: readRune_def ReadRune_def UnreadRune_def remaining_def
      split: list.splits if_splits prod.splits option.splits)

lemma unreadRune_remaining:
  "unreadRune s = (e, s1) \<Longrightarrow> remaining s1 \<le> Suc (remaining s)"
  by (auto simp: unreadRune_def UnreadRune_def remaining_def
      split: prod.splits option.splits)

lemma WriteRune_remaining [simp]: "remaining (WriteRune c s) = remaining s"
  by (simp add: WriteRune_def remaining_def)

lemma Reset_remaining [simp]: "remaining (Reset s) = remaining s"
  by (simp add: Reset_def remaining_def)

subsection \<open>Whitespace, comments and the end of a statement\<close>

text \<open>
  The idiom \<^verbatim>\<open>if err == io.EOF { return term, r.wrap(ErrUnexpectedEOF) }; return term, err\<close>
  that follows most reads inside a term.
\<close>

definition eofErr :: "Reader \<Rightarrow> error \<Rightarrow> error" where
  "eofErr s e = (if e = EOF then wrap s ErrUnexpectedEOF else e)"

function skipWhitespace :: "Reader \<Rightarrow> rune \<times> error option \<times> Reader" where
  "skipWhitespace s =
     (case readRune s of
        (r1, Some e, s1) \<Rightarrow> (r1, Some e, s1)
      | (r1, None, s1) \<Rightarrow> if isSpace r1 then skipWhitespace s1 else (r1, None, s1))"
  by pat_completeness auto
termination
  by (relation "measure remaining") (auto dest: readRune_remaining [OF sym])

text \<open>The loop of \<^verbatim>\<open>skipRestOfLine\<close>, then the two assignments that follow it.\<close>

function skipRestOfLine_loop :: "Reader \<Rightarrow> rune \<times> error option \<times> Reader" where
  "skipRestOfLine_loop s =
     (case readRune s of
        (r1, Some e, s1) \<Rightarrow> (r1, Some e, s1)
      | (r1, None, s1) \<Rightarrow> if r1 \<noteq> 0x0A then skipRestOfLine_loop s1 else (r1, None, s1))"
  by pat_completeness auto
termination
  by (relation "measure remaining") (auto dest: readRune_remaining [OF sym])

definition skipRestOfLine :: "Reader \<Rightarrow> rune \<times> error option \<times> Reader" where
  "skipRestOfLine s =
     (case skipRestOfLine_loop s of
        (r1, Some e, s1) \<Rightarrow> (r1, Some e, s1)
      | (r1, None, s1) \<Rightarrow> (r1, None, s1\<lparr>line := line s1 + 1, column := 0\<rparr>))"

definition readEndQuad :: "Reader \<Rightarrow> error option \<times> Reader" where
  "readEndQuad s =
     (case skipWhitespace s of
        (r1, Some e, s1) \<Rightarrow> (if e = EOF then (Some (wrap s1 ErrUnterminatedQuad), s1) else (Some e, s1))
      | (r1, None, s1) \<Rightarrow>
          if r1 \<noteq> RUNE CHR ''.'' then (Some (wrap s1 ErrUnexpectedCharacter), s1)
          else (None, s1))"

definition expectCommentOrEndOfLine :: "Reader \<Rightarrow> error option \<times> Reader" where
  "expectCommentOrEndOfLine s =
     (case skipWhitespace s of
        (r1, Some e, s1) \<Rightarrow> (if e = EOF then (None, s1) else (Some e, s1))
      | (r1, None, s1) \<Rightarrow>
          if r1 = RUNE CHR ''#'' then
            (case skipRestOfLine s1 of
               (r2, Some e, s2) \<Rightarrow> (if e = EOF then (None, s2) else (Some e, s2))
             | (r2, None, s2) \<Rightarrow> (None, s2))
          else if r1 \<noteq> 0x0A then (Some (wrap s1 ErrUnexpectedCharacter), s1)
          else (None, s1))"

subsection \<open>The term lexers\<close>

text \<open>
  The loop \<^verbatim>\<open>for i := size - 1; i >= 0; i--\<close> over the digits of a numeric escape, which
  \<^verbatim>\<open>parseIRI\<close> and \<^verbatim>\<open>parseLiteral\<close> both contain: \<open>hexDigits (Suc i) cp\<close> is the
  iteration with index \<open>i\<close> and \<^verbatim>\<open>codepoint\<close> \<open>cp\<close>. The sum and the product are those of
  \<^verbatim>\<open>int32\<close>.
\<close>

fun hexDigits :: "nat \<Rightarrow> rune \<Rightarrow> Reader \<Rightarrow> (error + rune) \<times> Reader" where
  "hexDigits 0 cp s = (Inr cp, s)"
| "hexDigits (Suc i) cp s =
     (case readRune s of
        (r1, Some e, s1) \<Rightarrow> (Inl (eofErr s1 e), s1)
      | (r1, None, s1) \<Rightarrow>
          if r1 \<ge> RUNE CHR ''0'' \<and> r1 \<le> RUNE CHR ''9'' then
            hexDigits i (int32 (cp + int32 (2 ^ (4 * i) * (r1 - RUNE CHR ''0'')))) s1
          else if r1 \<ge> RUNE CHR ''a'' \<and> r1 \<le> RUNE CHR ''f'' then
            hexDigits i (int32 (cp + int32 (2 ^ (4 * i) * (r1 - RUNE CHR ''a'' + 10)))) s1
          else if r1 \<ge> RUNE CHR ''A'' \<and> r1 \<le> RUNE CHR ''F'' then
            hexDigits i (int32 (cp + int32 (2 ^ (4 * i) * (r1 - RUNE CHR ''A'' + 10)))) s1
          else (Inl (wrap s1 ErrInvalidCodepointExpression), s1))"

lemma hexDigits_remaining:
  "hexDigits n cp s = (res, s1) \<Longrightarrow> remaining s1 \<le> remaining s"
proof (induction n arbitrary: cp s)
  case 0
  then show ?case by simp
next
  case (Suc n)
  obtain r1 e s' where rd: "readRune s = (r1, e, s')"
    by (cases "readRune s") auto
  have le: "remaining s' \<le> remaining s"
    using rd by (rule readRune_remaining_le)
  show ?case
  proof (cases e)
    case (Some e')
    with Suc.prems rd le show ?thesis by simp
  next
    case None
    with Suc.prems rd have "s1 = s' \<or> (\<exists>cp'. hexDigits n cp' s' = (res, s1))"
      by (auto split: if_splits)
    with Suc.IH le show ?thesis by (auto intro: order_trans)
  qed
qed

function parseIRI :: "Reader \<Rightarrow> Term \<times> error option \<times> Reader" where
  "parseIRI s =
     (case readRune s of
        (r1, Some e, s1) \<Rightarrow> (zeroTerm, Some (eofErr s1 e), s1)
      | (r1, None, s1) \<Rightarrow>
          if r1 \<le> 0x20 \<or> r1 = RUNE CHR ''<'' \<or> r1 = 0x22 \<or> r1 = RUNE CHR ''{''
             \<or> r1 = RUNE CHR ''}'' \<or> r1 = RUNE CHR ''|'' \<or> r1 = RUNE CHR ''^'' \<or> r1 = 0x60
          then (zeroTerm, Some (wrap s1 ErrUnexpectedCharacter), s1)
          else if r1 = RUNE CHR ''>'' then
            (if buf s1 = [] then (zeroTerm, Some (wrap s1 ErrUnexpectedCharacter), s1)
             else (IRI (buf s1), None, s1))
          else if r1 = 0x5C then
            (case readRune s1 of
               (r2, Some e, s2) \<Rightarrow> (zeroTerm, Some (eofErr s2 e), s2)
             | (r2, None, s2) \<Rightarrow>
                 if r2 = RUNE CHR ''u'' \<or> r2 = RUNE CHR ''U'' then
                   (case hexDigits (if r2 = RUNE CHR ''U'' then 8 else 4) 0 s2 of
                      (Inl e, s3) \<Rightarrow> (zeroTerm, Some e, s3)
                    | (Inr codepoint, s3) \<Rightarrow> parseIRI (WriteRune codepoint s3))
                 else (zeroTerm, Some (wrap s2 ErrUnexpectedCharacter), s2))
          else parseIRI (WriteRune r1 s1))"
  by pat_completeness auto
termination
  by (relation "measure remaining")
    (auto dest!: readRune_remaining [OF sym] hexDigits_remaining [OF sym])

text \<open>
  The label loop of \<^verbatim>\<open>parseBlankNode\<close>. At a period the rune is put back and the two
  bytes \<^verbatim>\<open>next\<close> are peeked; \<^verbatim>\<open>next[1]\<close> exists whenever \<^verbatim>\<open>Peek\<close> did not report
  \<^verbatim>\<open>io.EOF\<close>. When \<^verbatim>\<open>unreadRune\<close> fails, the code returns the zero term and no error.
\<close>

function parseBlankNode_loop :: "Reader \<Rightarrow> Term \<times> error option \<times> Reader" where
  "parseBlankNode_loop s =
     (case readRune s of
        (r1, Some e, s1) \<Rightarrow> (zeroTerm, Some (eofErr s1 e), s1)
      | (r1, None, s1) \<Rightarrow>
          if isPnChars r1 then parseBlankNode_loop (WriteRune r1 s1)
          else if isSpace r1 then (Blank (buf s1), None, s1)
          else if r1 = RUNE CHR ''.'' then
            (case unreadRune s1 of
               (Some e, s2) \<Rightarrow> (zeroTerm, None, s2)
             | (None, s2) \<Rightarrow>
                 (case Peek 2 (r s2) of (next, perr, b3) \<Rightarrow>
                    let s3 = s2\<lparr>r := b3\<rparr> in
                    if perr = Some EOF then (Blank (buf s3), None, s3)
                    else if next ! 1 = CHR '' '' \<or> next ! 1 = CHR 0x09
                            \<or> next ! 1 = CHR 0x0A \<or> next ! 1 = CHR 0x0D
                    then (Blank (buf s3), None, s3)
                    else
                      (case readRune s3 of
                         (r2, Some e, s4) \<Rightarrow> (zeroTerm, Some e, s4)
                       | (r2, None, s4) \<Rightarrow> parseBlankNode_loop (WriteRune r1 s4))))
          else (zeroTerm, Some (wrap s1 ErrUnexpectedCharacter), s1))"
  by pat_completeness auto
termination
proof (relation "measure remaining", goal_cases)
  case 1
  show ?case by simp
next
  case 2
  then show ?case by (auto dest!: readRune_remaining [OF sym])
next
  case (3 s r1 y e s1 ue s2 nxt yc perr b3 s3 r2 ye e2 s4)
  have "remaining s1 < remaining s"
    using 3 by (auto dest!: readRune_remaining [OF sym])
  moreover have "remaining s2 \<le> Suc (remaining s1)"
    using 3 by (auto dest!: unreadRune_remaining [OF sym])
  moreover have "remaining s3 = remaining s2"
    using 3 by (auto simp: Peek_def Let_def remaining_def)
  moreover have "remaining s4 < remaining s3"
    using 3 by (auto dest!: readRune_remaining [OF sym])
  ultimately show ?case by simp
qed

definition parseBlankNode :: "Reader \<Rightarrow> Term \<times> error option \<times> Reader" where
  "parseBlankNode s =
     (case readRune s of
        (r1, Some e, s1) \<Rightarrow> (zeroTerm, Some (eofErr s1 e), s1)
      | (r1, None, s1) \<Rightarrow>
          if r1 \<noteq> RUNE CHR '':'' then (zeroTerm, Some (wrap s1 ErrUnexpectedCharacter), s1)
          else
            (case readRune s1 of
               (r2, Some e, s2) \<Rightarrow> (zeroTerm, Some (eofErr s2 e), s2)
             | (r2, None, s2) \<Rightarrow>
                 if \<not> (isPnCharsU r2 \<or> isNumeral r2)
                 then (zeroTerm, Some (wrap s2 ErrUnexpectedCharacter), s2)
                 else parseBlankNode_loop (WriteRune r2 s2)))"

text \<open>
  The three loops of \<^verbatim>\<open>parseLiteral\<close>: the language tag after \<^verbatim>\<open>@\<close>, the datatype
  IRI after \<^verbatim>\<open>^^<\<close> (the loop under the comment \<^verbatim>\<open>// Read an IRI\<close>), and the
  characters between the quotes.
\<close>

function parseLiteral_language :: "string \<Rightarrow> bool \<Rightarrow> Reader \<Rightarrow> Term \<times> error option \<times> Reader" where
  "parseLiteral_language value major s =
     (case readRune s of
        (r1, Some e, s1) \<Rightarrow> (zeroTerm, Some (eofErr s1 e), s1)
      | (r1, None, s1) \<Rightarrow>
          if r1 = RUNE CHR ''.'' \<or> isSpace r1 then
            (if buf s1 = [] then (zeroTerm, Some (wrap s1 ErrUnexpectedCharacter), s1)
             else
               (case unreadRune s1 of
                  (Some e, s2) \<Rightarrow> (zeroTerm, Some (wrap s2 e), s2)
                | (None, s2) \<Rightarrow> (LiteralWithLanguage value (buf s2), None, s2)))
          else if major then
            (if isAlpha r1 then parseLiteral_language value True (WriteRune r1 s1)
             else if r1 = RUNE CHR ''-'' then parseLiteral_language value False (WriteRune r1 s1)
             else (zeroTerm, Some (wrap s1 ErrUnexpectedCharacter), s1))
          else
            (if isAlpha r1 \<or> isNumeral r1 then parseLiteral_language value False (WriteRune r1 s1)
             else (zeroTerm, Some (wrap s1 ErrUnexpectedCharacter), s1)))"
  by pat_completeness auto
termination
  by (relation "measure (\<lambda>(value, major, s). remaining s)")
    (auto dest!: readRune_remaining [OF sym])

function parseLiteral_datatype :: "string \<Rightarrow> Reader \<Rightarrow> Term \<times> error option \<times> Reader" where
  "parseLiteral_datatype value s =
     (case readRune s of
        (r1, Some e, s1) \<Rightarrow> (zeroTerm, Some (eofErr s1 e), s1)
      | (r1, None, s1) \<Rightarrow>
          if r1 = RUNE CHR ''>'' then
            (if buf s1 = [] then (zeroTerm, Some (wrap s1 ErrUnexpectedCharacter), s1)
             else (LiteralWithDatatype value (buf s1), None, s1))
          else if r1 < 0x20 \<or> r1 > 0x7E \<or> r1 = RUNE CHR '' '' \<or> r1 = RUNE CHR ''<'' \<or> r1 = 0x22
          then (zeroTerm, Some (wrap s1 ErrUnexpectedCharacter), s1)
          else parseLiteral_datatype value (WriteRune r1 s1))"
  by pat_completeness auto
termination
  by (relation "measure (\<lambda>(value, s). remaining s)")
    (auto dest!: readRune_remaining [OF sym])

function parseLiteral :: "Reader \<Rightarrow> Term \<times> error option \<times> Reader" where
  "parseLiteral s =
     (case readRune s of
        (r1, Some e, s1) \<Rightarrow> (zeroTerm, Some (eofErr s1 e), s1)
      | (r1, None, s1) \<Rightarrow>
          if r1 = 0x22 then
            (case readRune s1 of
               (r2, Some e, s2) \<Rightarrow> (zeroTerm, Some (eofErr s2 e), s2)
             | (r2, None, s2) \<Rightarrow>
                 if r2 = RUNE CHR ''.'' \<or> r2 = RUNE CHR '' '' \<or> r2 = 0x09 then
                   (case unreadRune s2 of
                      (Some e, s3) \<Rightarrow> (zeroTerm, Some (wrap s3 e), s3)
                    | (None, s3) \<Rightarrow> (Literal (buf s3), None, s3))
                 else if r2 = RUNE CHR ''@'' then
                   parseLiteral_language (buf s2) True (Reset s2)
                 else if r2 = RUNE CHR ''^'' then
                   (let value = buf s2; s3 = Reset s2 in
                    case readRune s3 of
                      (r3, Some e, s4) \<Rightarrow> (zeroTerm, Some (eofErr s4 e), s4)
                    | (r3, None, s4) \<Rightarrow>
                        if r3 \<noteq> RUNE CHR ''^'' then (zeroTerm, Some (wrap s4 ErrUnexpectedCharacter), s4)
                        else
                          (case readRune s4 of
                             (r4, Some e, s5) \<Rightarrow> (zeroTerm, Some (eofErr s5 e), s5)
                           | (r4, None, s5) \<Rightarrow>
                               if r4 \<noteq> RUNE CHR ''<''
                               then (zeroTerm, Some (wrap s5 ErrUnexpectedCharacter), s5)
                               else parseLiteral_datatype value s5))
                 else (zeroTerm, Some (wrap s2 ErrUnexpectedCharacter), s2))
          else if r1 = 0x5C then
            (case readRune s1 of
               (r2, Some e, s2) \<Rightarrow> (zeroTerm, Some (eofErr s2 e), s2)
             | (r2, None, s2) \<Rightarrow>
                 if r2 = 0x5C \<or> r2 = 0x22 then parseLiteral (WriteRune r2 s2)
                 else if r2 = RUNE CHR ''t'' then parseLiteral (WriteRune 0x09 s2)
                 else if r2 = RUNE CHR ''r'' then parseLiteral (WriteRune 0x0D s2)
                 else if r2 = RUNE CHR ''n'' then parseLiteral (WriteRune 0x0A s2)
                 else if r2 = RUNE CHR ''b'' then parseLiteral (WriteRune 0x08 s2)
                 else if r2 = RUNE CHR ''f'' then parseLiteral (WriteRune 0x0C s2)
                 else if r2 = RUNE CHR ''u'' \<or> r2 = RUNE CHR ''U'' then
                   (case hexDigits (if r2 = RUNE CHR ''U'' then 8 else 4) 0 s2 of
                      (Inl e, s3) \<Rightarrow> (zeroTerm, Some e, s3)
                    | (Inr codepoint, s3) \<Rightarrow> parseLiteral (WriteRune codepoint s3))
                 else (zeroTerm, Some (wrap s2 ErrUnexpectedCharacter), s2))
          else parseLiteral (WriteRune r1 s1))"
  by pat_completeness auto
termination
  by (relation "measure remaining")
    (auto dest!: readRune_remaining [OF sym] hexDigits_remaining [OF sym])

text \<open>The dispatchers: each resets the buffer, skips spaces and tabs and looks at one rune.\<close>

definition parseIriOrBlankNode :: "Reader \<Rightarrow> Term \<times> error option \<times> Reader" where
  "parseIriOrBlankNode s =
     (case skipWhitespace (Reset s) of
        (r1, Some e, s1) \<Rightarrow> (zeroTerm, Some e, s1)
      | (r1, None, s1) \<Rightarrow>
          if r1 = RUNE CHR ''<'' then parseIRI s1
          else if r1 = RUNE CHR ''_'' then parseBlankNode s1
          else (zeroTerm, Some (wrap s1 ErrUnexpectedCharacter), s1))"

definition parseAnyTerm :: "Reader \<Rightarrow> Term \<times> error option \<times> Reader" where
  "parseAnyTerm s =
     (case skipWhitespace (Reset s) of
        (r1, Some e, s1) \<Rightarrow> (zeroTerm, Some e, s1)
      | (r1, None, s1) \<Rightarrow>
          if r1 = RUNE CHR ''<'' then parseIRI s1
          else if r1 = RUNE CHR ''_'' then parseBlankNode s1
          else if r1 = 0x22 then parseLiteral s1
          else (zeroTerm, Some (wrap s1 ErrUnexpectedCharacter), s1))"

definition parseIriOrBlankNodeOrEndTriple :: "Reader \<Rightarrow> bool \<times> Term \<times> error option \<times> Reader" where
  "parseIriOrBlankNodeOrEndTriple s =
     (case skipWhitespace (Reset s) of
        (r1, Some e, s1) \<Rightarrow> (False, zeroTerm, Some e, s1)
      | (r1, None, s1) \<Rightarrow>
          if r1 = RUNE CHR ''<'' then (case parseIRI s1 of (term, e, s2) \<Rightarrow> (False, term, e, s2))
          else if r1 = RUNE CHR ''_'' then (case parseBlankNode s1 of (term, e, s2) \<Rightarrow> (False, term, e, s2))
          else if r1 = RUNE CHR ''.'' then (True, zeroTerm, None, s1)
          else (False, zeroTerm, Some (wrap s1 ErrUnexpectedCharacter), s1))"

subsection \<open>Next\<close>

declare skipWhitespace.simps [simp del] skipRestOfLine_loop.simps [simp del]
  parseIRI.simps [simp del] parseBlankNode_loop.simps [simp del]
  parseLiteral.simps [simp del] parseLiteral_language.simps [simp del]
  parseLiteral_datatype.simps [simp del]

lemma skipWhitespace_remaining:
  "skipWhitespace s = (r1, None, s1) \<Longrightarrow> remaining s1 < remaining s"
proof (induction s rule: skipWhitespace.induct)
  case (1 s)
  obtain c e s' where rd: "readRune s = (c, e, s')"
    by (cases "readRune s") auto
  with "1.prems" have e: "e = None"
    by (cases e) (auto simp: skipWhitespace.simps [of s])
  have lt: "remaining s' < remaining s"
    using rd e by (auto dest: readRune_remaining)
  show ?case
  proof (cases "isSpace c")
    case True
    with "1.prems" rd e have "skipWhitespace s' = (r1, None, s1)"
      by (simp add: skipWhitespace.simps [of s])
    with "1.IH" [OF rd [symmetric] refl e True] lt show ?thesis by simp
  next
    case False
    with "1.prems" rd e lt show ?thesis
      by (simp add: skipWhitespace.simps [of s])
  qed
qed

lemma skipRestOfLine_loop_remaining:
  "skipRestOfLine_loop s = (r1, None, s1) \<Longrightarrow> remaining s1 < remaining s"
proof (induction s rule: skipRestOfLine_loop.induct)
  case (1 s)
  obtain c e s' where rd: "readRune s = (c, e, s')"
    by (cases "readRune s") auto
  with "1.prems" have e: "e = None"
    by (cases e) (auto simp: skipRestOfLine_loop.simps [of s])
  have lt: "remaining s' < remaining s"
    using rd e by (auto dest: readRune_remaining)
  show ?case
  proof (cases "c \<noteq> 0x0A")
    case True
    with "1.prems" rd e have "skipRestOfLine_loop s' = (r1, None, s1)"
      by (simp add: skipRestOfLine_loop.simps [of s])
    with "1.IH" [OF rd [symmetric] refl e True] lt show ?thesis by simp
  next
    case False
    with "1.prems" rd e lt show ?thesis
      by (simp add: skipRestOfLine_loop.simps [of s])
  qed
qed

lemma skipRestOfLine_remaining:
  "skipRestOfLine s = (r1, None, s1) \<Longrightarrow> remaining s1 < remaining s"
  by (auto simp: skipRestOfLine_def remaining_def
      split: prod.splits option.splits dest!: skipRestOfLine_loop_remaining)

text \<open>
  The loop \<^verbatim>\<open>for r1 == '\n'\<close> at the head of \<^verbatim>\<open>Next\<close>. The result is \<open>False\<close> where
  the code returns \<^verbatim>\<open>false\<close> from inside the loop, and \<open>True\<close> where the loop ends:
  the first rune of a statement has been read.
\<close>

function Next_skip :: "Reader \<Rightarrow> bool \<times> Reader" where
  "Next_skip s =
     (case skipWhitespace s of
        (r1, Some e, s1) \<Rightarrow> if e = EOF then (False, s1) else (False, s1\<lparr>err := Some e\<rparr>)
      | (r1, None, s1) \<Rightarrow>
          if r1 = RUNE CHR ''#'' then
            (case skipRestOfLine s1 of
               (r2, Some e, s2) \<Rightarrow> if e = EOF then (False, s2) else (False, s2\<lparr>err := Some e\<rparr>)
             | (r2, None, s2) \<Rightarrow> if r2 = 0x0A then Next_skip s2 else (True, s2))
          else if r1 = 0x0A then Next_skip s1
          else (True, s1))"
  by pat_completeness auto
termination
  by (relation "measure remaining")
    (auto dest!: skipWhitespace_remaining [OF sym] skipRestOfLine_remaining [OF sym])

declare Next_skip.simps [simp del]

definition Next :: "Reader \<Rightarrow> bool \<times> Reader" where
  "Next s0 =
     (if err s0 \<noteq> None then (False, s0)
      else
        let s = s0\<lparr>q := zeroQuad, line := line s0 + 1, column := - 1\<rparr> in
        case Next_skip s of
          (False, s) \<Rightarrow> (False, s)
        | (True, s) \<Rightarrow>
        case UnreadRune (r s) of
          (Some e, b) \<Rightarrow> (False, s\<lparr>r := b, err := Some e\<rparr>)
        | (None, b) \<Rightarrow>
        \<comment> \<open>Subject\<close>
        case parseIriOrBlankNode (s\<lparr>r := b\<rparr>) of
          (term, Some e, s) \<Rightarrow> (False, s\<lparr>err := Some e\<rparr>)
        | (term, None, s) \<Rightarrow>
        if Kind term = IRITerm \<and> \<not> isAbsoluteIRI (Value term)
        then (False, s\<lparr>err := Some (wrap s ErrRelativeIRI)\<rparr>)
        else
        let s = s\<lparr>q := (q s)\<lparr>S := term\<rparr>\<rparr> in
        \<comment> \<open>Property\<close>
        case parseIriOrBlankNode s of
          (term, Some e, s) \<Rightarrow> (False, s\<lparr>err := Some e\<rparr>)
        | (term, None, s) \<Rightarrow>
        if Kind term = IRITerm \<and> \<not> isAbsoluteIRI (Value term)
        then (False, s\<lparr>err := Some (wrap s ErrRelativeIRI)\<rparr>)
        else
        let s = s\<lparr>q := (q s)\<lparr>P := term\<rparr>\<rparr> in
        \<comment> \<open>Object\<close>
        case parseAnyTerm s of
          (term, Some e, s) \<Rightarrow> (False, s\<lparr>err := Some e\<rparr>)
        | (term, None, s) \<Rightarrow>
        if Kind term = IRITerm \<and> \<not> isAbsoluteIRI (Value term)
        then (False, s\<lparr>err := Some (wrap s ErrRelativeIRI)\<rparr>)
        else if Kind term = LiteralTerm \<and> Datatype term \<noteq> [] \<and> \<not> isAbsoluteIRI (Datatype term)
        then (False, s\<lparr>err := Some (wrap s ErrRelativeIRI)\<rparr>)
        else
        let s = s\<lparr>q := (q s)\<lparr>O' := term\<rparr>\<rparr> in
        \<comment> \<open>Graph or end\<close>
        case parseIriOrBlankNodeOrEndTriple s of
          (end, term, Some e, s) \<Rightarrow> (False, s\<lparr>err := Some e\<rparr>)
        | (end, term, None, s) \<Rightarrow>
        if end then
          (case expectCommentOrEndOfLine s of (e, s) \<Rightarrow> (e = None, s\<lparr>err := e\<rparr>))
        else
        let s = s\<lparr>q := (q s)\<lparr>G := term\<rparr>\<rparr> in
        case readEndQuad s of
          (Some e, s) \<Rightarrow> (False, s\<lparr>err := Some e\<rparr>)
        | (None, s) \<Rightarrow>
        case expectCommentOrEndOfLine s of (e, s) \<Rightarrow> (e = None, s\<lparr>err := e\<rparr>))"

text \<open>The reader after \<open>n\<close> calls of \<^verbatim>\<open>Next\<close>.\<close>

primrec after_calls :: "nat \<Rightarrow> Reader \<Rightarrow> Reader" where
  "after_calls 0 s = s"
| "after_calls (Suc n) s = after_calls n (snd (Next s))"

subsection \<open>Numeric escapes\<close>

text \<open>
  The vocabulary for statements about numeric escapes: the runes that the
  three range tests of the digit loop accept, the value each stands for, the number a
  string of digits denotes (most significant digit first), and \<^verbatim>\<open>utf8.ValidRune\<close>.
\<close>

definition isHexDigit :: "rune \<Rightarrow> bool" where
  "isHexDigit c \<longleftrightarrow>
     (c \<ge> RUNE CHR ''0'' \<and> c \<le> RUNE CHR ''9'')
     \<or> (c \<ge> RUNE CHR ''a'' \<and> c \<le> RUNE CHR ''f'')
     \<or> (c \<ge> RUNE CHR ''A'' \<and> c \<le> RUNE CHR ''F'')"

definition hexValue :: "rune \<Rightarrow> int" where
  "hexValue c =
     (if c \<ge> RUNE CHR ''0'' \<and> c \<le> RUNE CHR ''9'' then c - RUNE CHR ''0''
      else if c \<ge> RUNE CHR ''a'' \<and> c \<le> RUNE CHR ''f'' then c - RUNE CHR ''a'' + 10
      else c - RUNE CHR ''A'' + 10)"

fun hexNumber :: "rune list \<Rightarrow> int" where
  "hexNumber [] = 0"
| "hexNumber (d # ds) = hexValue d * 16 ^ length ds + hexNumber ds"

definition ValidRune :: "rune \<Rightarrow> bool" where
  "ValidRune c \<longleftrightarrow> (0 \<le> c \<and> c < 0xD800) \<or> (0xDFFF < c \<and> c \<le> 0x10FFFF)"

section \<open>Properties\<close>

subsection \<open>The rune cursor\<close>

lemma readRune_plain:
  "pending (r s) = c # cs \<Longrightarrow> c \<noteq> 0x0D \<Longrightarrow>
   readRune s = (c, None, s\<lparr>r := (r s)\<lparr>pending := cs, lastRune := Some c\<rparr>,
                              column := column s + 1\<rparr>)"
  by (simp add: readRune_def ReadRune_def)

lemma readRune_CRLF:
  "pending (r s) = 0x0D # 0x0A # cs \<Longrightarrow>
   readRune s = (0x0A, None, s\<lparr>r := (r s)\<lparr>pending := cs, lastRune := Some 0x0A\<rparr>,
                                 column := column s + 1\<rparr>)"
  by (simp add: readRune_def ReadRune_def)

lemma readRune_CR:
  "pending (r s) = 0x0D # c # cs \<Longrightarrow> c \<noteq> 0x0A \<Longrightarrow>
   readRune s = (0x0D, None, s\<lparr>r := (r s)\<lparr>pending := c # cs, lastRune := None\<rparr>,
                                 column := column s + 1\<rparr>)"
  by (simp add: readRune_def ReadRune_def UnreadRune_def)

text \<open>
  C8 (the code departs from the claim). A carriage return that is the last rune of the
  input is not returned: the second \<^verbatim>\<open>ReadRune\<close> fails, \<^verbatim>\<open>readRune\<close> returns rune
  0 with \<^verbatim>\<open>io.EOF\<close>, and the carriage return is lost. Everywhere else the claim holds
  (\<open>readRune_plain\<close>, \<open>readRune_CRLF\<close>, \<open>readRune_CR\<close>).
\<close>

theorem readRune_final_CR:
  "readRune (NewReader [0x0D]) = (0, Some EOF, (NewReader [])\<lparr>column := 1\<rparr>)"
  by (simp add: readRune_def ReadRune_def NewReader_def)

subsection \<open>The sticky error and the end of the input\<close>

text \<open>
  C1. Once the sticky error of a reader is set, every later call of \<^verbatim>\<open>Next\<close> returns
  \<^verbatim>\<open>false\<close> and leaves the reader as it is: nothing is read from the source, and
  \<^verbatim>\<open>Err\<close> keeps returning the same error.
\<close>

theorem Next_sticky_error:
  assumes "Err s \<noteq> None"
  shows "Next (after_calls n s) = (False, s) \<and> Err (snd (Next (after_calls n s))) = Err s"
proof -
  have stay: "Next s = (False, s)"
    using assms by (simp add: Next_def Err_def)
  have "after_calls n s = s"
    by (induction n) (simp_all add: stay)
  then show ?thesis
    by (simp add: stay)
qed

theorem Next_sticky_error_witness:
  "Err (snd (Next (NewReader (map RUNE ''x'')))) \<noteq> None
   \<and> Next (after_calls 3 (snd (Next (NewReader (map RUNE ''x'')))))
       = (False, snd (Next (NewReader (map RUNE ''x''))))
   \<and> Err (snd (Next (after_calls 3 (snd (Next (NewReader (map RUNE ''x'')))))))
       = Err (snd (Next (NewReader (map RUNE ''x''))))"
proof -
  have h: "Err (snd (Next (NewReader (map RUNE ''x'')))) \<noteq> None"
    by code_simp
  from Next_sticky_error [OF h, of 3] h show ?thesis
    by blast
qed

lemma readRune_error:
  "readRune s = (c, Some e, s1) \<Longrightarrow> e = EOF \<and> pending (r s1) = []"
  by (auto simp: readRune_def ReadRune_def UnreadRune_def
      split: list.splits if_splits prod.splits option.splits)

lemma skipWhitespace_error:
  "skipWhitespace s = (c, Some e, s1) \<Longrightarrow> e = EOF \<and> pending (r s1) = []"
proof (induction s rule: skipWhitespace.induct)
  case (1 s)
  then show ?case
    by (subst (asm) (2) skipWhitespace.simps)
      (auto split: prod.splits option.splits if_splits dest: readRune_error)
qed

lemma skipRestOfLine_loop_error:
  "skipRestOfLine_loop s = (c, Some e, s1) \<Longrightarrow> e = EOF \<and> pending (r s1) = []"
proof (induction s rule: skipRestOfLine_loop.induct)
  case (1 s)
  then show ?case
    by (subst (asm) (2) skipRestOfLine_loop.simps)
      (auto split: prod.splits option.splits if_splits dest: readRune_error)
qed

lemma skipRestOfLine_error:
  "skipRestOfLine s = (c, Some e, s1) \<Longrightarrow> e = EOF \<and> pending (r s1) = []"
  by (auto simp: skipRestOfLine_def split: prod.splits option.splits
      dest: skipRestOfLine_loop_error)

lemma Next_skip_exhausted:
  "Next_skip s = (False, s1) \<Longrightarrow> err s1 = None \<Longrightarrow> pending (r s1) = []"
proof (induction s rule: Next_skip.induct)
  case (1 s)
  obtain r1 e s' where sw: "skipWhitespace s = (r1, e, s')"
    by (cases "skipWhitespace s") auto
  show ?case
  proof (cases e)
    case (Some e')
    with "1.prems" sw skipWhitespace_error [of s r1 e' s'] show ?thesis
      by (simp add: Next_skip.simps [of s] split: if_splits)
  next
    case None
    note e = None
    show ?thesis
    proof (cases "r1 = RUNE CHR ''#''")
      case True
      obtain r2 e2 s2 where sr: "skipRestOfLine s' = (r2, e2, s2)"
        by (cases "skipRestOfLine s'") auto
      show ?thesis
      proof (cases e2)
        case (Some e')
        with "1.prems" sw e True sr skipRestOfLine_error [of s' r2 e' s2] show ?thesis
          by (simp add: Next_skip.simps [of s] split: if_splits)
      next
        case None
        with "1.prems" sw e True sr have "r2 = 0x0A" and "Next_skip s2 = (False, s1)"
          by (simp_all add: Next_skip.simps [of s] split: if_splits)
        with "1.IH"(1) [OF sw [symmetric] refl e True sr [symmetric] refl None] "1.prems"(2)
        show ?thesis by simp
      qed
    next
      case False
      with "1.prems" sw e have "r1 = 0x0A" and "Next_skip s' = (False, s1)"
        by (simp_all add: Next_skip.simps [of s] split: if_splits)
      with "1.IH"(2) [OF sw [symmetric] refl e False] "1.prems"(2)
      show ?thesis by simp
    qed
  qed
qed


lemma Next_false_exhausted:
  "err s = None \<Longrightarrow> Next s = (False, s1) \<Longrightarrow> err s1 = None \<Longrightarrow> pending (r s1) = []"
  by (auto simp: Next_def Let_def split: prod.splits option.splits if_splits bool.splits
      dest: Next_skip_exhausted)

lemma Next_at_end:
  "err s = None \<Longrightarrow> pending (r s) = [] \<Longrightarrow>
   Next s = (False, s\<lparr>q := zeroQuad, line := line s + 1, column := 0,
                        r := (r s)\<lparr>lastRune := None\<rparr>\<rparr>)"
  by (simp add: Next_def Let_def Next_skip.simps skipWhitespace.simps readRune_def ReadRune_def)

lemma after_calls_at_end:
  "err s = None \<Longrightarrow> pending (r s) = [] \<Longrightarrow>
   err (after_calls n s) = None \<and> pending (r (after_calls n s)) = []"
proof (induction n arbitrary: s)
  case 0
  then show ?case by simp
next
  case (Suc n)
  let ?s' = "snd (Next s)"
  have "err ?s' = None" and "pending (r ?s') = []"
    using Suc.prems by (simp_all add: Next_at_end)
  then show ?case
    using Suc.IH [of ?s'] by simp
qed

text \<open>
  C10. When \<^verbatim>\<open>Next\<close> returns \<^verbatim>\<open>false\<close> and records no error, the source is
  exhausted; every later call of \<^verbatim>\<open>Next\<close> returns \<^verbatim>\<open>false\<close> too, and \<^verbatim>\<open>Err\<close> is
  still \<^verbatim>\<open>nil\<close> after it.
\<close>

theorem Next_exhaustion_stable:
  assumes "Err s = None" and "Next s = (False, s1)" and "Err s1 = None"
  shows "fst (Next (after_calls n s1)) = False \<and> Err (snd (Next (after_calls n s1))) = None"
proof -
  have "pending (r s1) = []"
    using assms by (auto simp: Err_def dest: Next_false_exhausted)
  moreover have "err s1 = None"
    using assms by (simp add: Err_def)
  ultimately have "err (after_calls n s1) = None \<and> pending (r (after_calls n s1)) = []"
    by (rule after_calls_at_end [rotated])
  then show ?thesis
    by (simp add: Next_at_end Err_def)
qed

theorem Next_exhaustion_stable_witness:
  "Err (snd (Next (NewReader (map RUNE ''<a:s> <a:p> <a:o> .'')))) = None
   \<and> Next (snd (Next (NewReader (map RUNE ''<a:s> <a:p> <a:o> .''))))
       = (False, snd (Next (snd (Next (NewReader (map RUNE ''<a:s> <a:p> <a:o> .''))))))
   \<and> Err (snd (Next (snd (Next (NewReader (map RUNE ''<a:s> <a:p> <a:o> .'')))))) = None
   \<and> fst (Next (after_calls 2
         (snd (Next (snd (Next (NewReader (map RUNE ''<a:s> <a:p> <a:o> .'')))))))) = False
   \<and> Err (snd (Next (after_calls 2
         (snd (Next (snd (Next (NewReader (map RUNE ''<a:s> <a:p> <a:o> .''))))))))) = None"
proof -
  let ?s = "snd (Next (NewReader (map RUNE ''<a:s> <a:p> <a:o> .'')))"
  have h1: "Err ?s = None"
    by code_simp
  have h2: "Next ?s = (False, snd (Next ?s))"
    by code_simp
  have h3: "Err (snd (Next ?s)) = None"
    by code_simp
  from Next_exhaustion_stable [OF h1 h2 h3, of 2] h1 h2 h3 show ?thesis
    by blast
qed

subsection \<open>Single statements\<close>

text \<open>
  C4 (as stated, it fails). The statement \<^verbatim>\<open><s> <p> <o> .\<close> of the claim is rejected:
  its subject \<^verbatim>\<open>s\<close> has no colon, and \<^verbatim>\<open>Next\<close> records the relative-IRI error.
\<close>

theorem Next_relative_example_rejected:
  "\<not> fst (Next (NewReader (map RUNE ''<s> <p> <o> .'')))
   \<and> Err (snd (Next (NewReader (map RUNE ''<s> <p> <o> .''))))
       = Some (ParseError 1 3 ErrRelativeIRI)"
  by code_simp

text \<open>
  C4 (amended). With absolute IRIs, \<^verbatim>\<open><a:s> <a:p> <a:o> .\<close> yields a quad whose graph
  is the zero term, of kind \<^verbatim>\<open>UnknownTerm\<close>, and \<^verbatim>\<open><a:s> <a:p> <a:o> <a:g> .\<close> one
  whose graph is the IRI \<^verbatim>\<open>a:g\<close>; on both inputs the following call of \<^verbatim>\<open>Next\<close>
  returns \<^verbatim>\<open>false\<close> with no error.
\<close>

theorem Next_graph_optional:
  "fst (Next (NewReader (map RUNE ''<a:s> <a:p> <a:o> .'')))
   \<and> Quad (snd (Next (NewReader (map RUNE ''<a:s> <a:p> <a:o> .''))))
       = \<lparr>S = IRI ''a:s'', P = IRI ''a:p'', O' = IRI ''a:o'', G = zeroTerm\<rparr>
   \<and> Kind zeroTerm = UnknownTerm
   \<and> \<not> fst (Next (snd (Next (NewReader (map RUNE ''<a:s> <a:p> <a:o> .'')))))
   \<and> Err (snd (Next (snd (Next (NewReader (map RUNE ''<a:s> <a:p> <a:o> .'')))))) = None
   \<and> fst (Next (NewReader (map RUNE ''<a:s> <a:p> <a:o> <a:g> .'')))
   \<and> Quad (snd (Next (NewReader (map RUNE ''<a:s> <a:p> <a:o> <a:g> .''))))
       = \<lparr>S = IRI ''a:s'', P = IRI ''a:p'', O' = IRI ''a:o'', G = IRI ''a:g''\<rparr>
   \<and> \<not> fst (Next (snd (Next (NewReader (map RUNE ''<a:s> <a:p> <a:o> <a:g> .'')))))
   \<and> Err (snd (Next (snd (Next (NewReader (map RUNE ''<a:s> <a:p> <a:o> <a:g> .'')))))) = None"
  by code_simp

text \<open>
  C3 (the code departs from the claim). The graph IRI is stored unchecked: the statement
  \<^verbatim>\<open><a:s> <a:p> <a:o> <g> .\<close> is accepted with the graph \<^verbatim>\<open>g\<close>, which has no colon,
  while the same IRI in the object slot is rejected with the relative-IRI error.
\<close>

theorem Next_graph_IRI_not_checked:
  "fst (Next (NewReader (map RUNE ''<a:s> <a:p> <a:o> <g> .'')))
   \<and> Err (snd (Next (NewReader (map RUNE ''<a:s> <a:p> <a:o> <g> .'')))) = None
   \<and> G (Quad (snd (Next (NewReader (map RUNE ''<a:s> <a:p> <a:o> <g> .''))))) = IRI ''g''
   \<and> \<not> isAbsoluteIRI ''g''
   \<and> Err (snd (Next (NewReader (map RUNE ''<a:s> <a:p> <g> .''))))
       = Some (ParseError 1 15 ErrRelativeIRI)"
  by code_simp

text \<open>
  C7 (the code departs from the claim). When the input ends after the third term,
  \<^verbatim>\<open>parseIriOrBlankNodeOrEndTriple\<close> hands back the \<^verbatim>\<open>io.EOF\<close> of \<^verbatim>\<open>skipWhitespace\<close>
  as it is, and \<^verbatim>\<open>Next\<close> records it: the error is not the unterminated-quad error.
  After a fourth term \<^verbatim>\<open>readEndQuad\<close> does report the unterminated quad.
\<close>

theorem Next_triple_EOF_before_period:
  "\<not> fst (Next (NewReader (map RUNE ''<a:s> <a:p> <a:o>'')))
   \<and> Err (snd (Next (NewReader (map RUNE ''<a:s> <a:p> <a:o>'')))) = Some EOF
   \<and> errKind EOF \<noteq> ErrUnterminatedQuad
   \<and> Err (snd (Next (NewReader (map RUNE ''<a:s> <a:p> <a:o> <a:g>''))))
       = Some (ParseError 1 24 ErrUnterminatedQuad)"
  by code_simp

subsection \<open>The datatype IRI of a literal\<close>

text \<open>
  C6 (the code departs from the claim). The loop that reads a datatype IRI is not
  \<^verbatim>\<open>parseIRI\<close>: it accepts \<^verbatim>\<open>{\<close>, which \<^verbatim>\<open>parseIRI\<close> rejects; it rejects the code
  point U+00E9, which \<^verbatim>\<open>parseIRI\<close> accepts; and it copies the six characters of a numeric escape of U+0041, which
  \<^verbatim>\<open>parseIRI\<close> decodes to \<^verbatim>\<open>A\<close>.
\<close>

theorem datatype_IRI_lexer_differs:
  "fst (snd (parseIRI (NewReader (map RUNE ''a:{>'')))) = Some (ParseError 0 3 ErrUnexpectedCharacter)
   \<and> fst (parseLiteral_datatype ''x'' (NewReader (map RUNE ''a:{>''))) = LiteralWithDatatype ''x'' ''a:{''
   \<and> fst (parseIRI (NewReader [0x61, 0x3A, 0xE9, 0x3E])) = IRI [CHR ''a'', CHR '':'', CHR 0xC3, CHR 0xA9]
   \<and> fst (snd (parseLiteral_datatype ''x'' (NewReader [0x61, 0x3A, 0xE9, 0x3E])))
       = Some (ParseError 0 3 ErrUnexpectedCharacter)
   \<and> fst (parseIRI (NewReader (0x61 # 0x3A # 0x5C # map RUNE ''u0041>''))) = IRI ''a:A''
   \<and> fst (parseLiteral_datatype ''x'' (NewReader (0x61 # 0x3A # 0x5C # map RUNE ''u0041>'')))
       = LiteralWithDatatype ''x'' (CHR ''a'' # CHR '':'' # CHR 0x5C # ''u0041'')"
  by code_simp

subsection \<open>The quad after a failed call\<close>

text \<open>No lexer touches the quad, and a term that a lexer accepts has a kind.\<close>

lemma readRune_q: "readRune s = (c, e, s1) \<Longrightarrow> q s1 = q s"
  by (auto simp: readRune_def split: prod.splits if_splits option.splits)

lemma unreadRune_q: "unreadRune s = (e, s1) \<Longrightarrow> q s1 = q s"
  by (auto simp: unreadRune_def split: prod.splits option.splits)

lemma WriteRune_q [simp]: "q (WriteRune c s) = q s"
  by (simp add: WriteRune_def)

lemma Reset_q [simp]: "q (Reset s) = q s"
  by (simp add: Reset_def)

lemma skipWhitespace_q: "skipWhitespace s = (c, e, s1) \<Longrightarrow> q s1 = q s"
proof (induction "remaining s" arbitrary: s rule: less_induct)
  case less
  obtain r1 e1 s' where rd: "readRune s = (r1, e1, s')"
    by (cases "readRune s") auto
  show ?case
  proof (cases "e1 = None \<and> isSpace r1")
    case True
    with less.prems rd have "skipWhitespace s' = (c, e, s1)"
      by (simp add: skipWhitespace.simps [of s])
    moreover have "remaining s' < remaining s"
      using rd True by (auto dest: readRune_remaining)
    ultimately have "q s1 = q s'"
      by (rule less.hyps [rotated])
    with rd show ?thesis by (simp add: readRune_q)
  next
    case False
    with less.prems rd have "s1 = s'"
      by (auto simp: skipWhitespace.simps [of s] split: option.splits if_splits)
    with rd show ?thesis by (simp add: readRune_q)
  qed
qed

lemma hexDigits_q: "hexDigits n cp s = (res, s1) \<Longrightarrow> q s1 = q s"
proof (induction n arbitrary: cp s)
  case 0
  then show ?case by simp
next
  case (Suc n)
  obtain r1 e s' where rd: "readRune s = (r1, e, s')"
    by (cases "readRune s") auto
  from Suc.prems rd have "s1 = s' \<or> (\<exists>cp'. hexDigits n cp' s' = (res, s1))"
    by (auto split: option.splits if_splits)
  with Suc.IH have "q s1 = q s'" by auto
  with rd show ?case by (simp add: readRune_q)
qed

lemma readRune_step:
  "readRune s = (c, e, s1) \<Longrightarrow>
   q s1 = q s \<and> remaining s1 \<le> remaining s \<and> (e = None \<longrightarrow> remaining s1 < remaining s)"
  by (cases e) (auto dest: readRune_q readRune_remaining readRune_remaining_le)

lemma hexDigits_step:
  "hexDigits n cp s = (res, s1) \<Longrightarrow> q s1 = q s \<and> remaining s1 \<le> remaining s"
  by (auto dest: hexDigits_q hexDigits_remaining)

lemma parseIRI_q:
  "parseIRI s = (t, e, s1) \<Longrightarrow> q s1 = q s \<and> (e = None \<longrightarrow> Kind t = IRITerm)"
proof (induction "remaining s" arbitrary: s rule: less_induct)
  case less
  have IH: "\<And>s'. parseIRI s' = (t, e, s1) \<Longrightarrow> remaining s' < remaining s
      \<Longrightarrow> q s1 = q s' \<and> (e = None \<longrightarrow> Kind t = IRITerm)"
    by (rule less.hyps)
  from less.prems show ?case
    apply (subst (asm) parseIRI.simps)
    apply (auto split: prod.splits option.splits if_splits sum.splits
        simp: IRI_def zeroTerm_def
        dest!: IH readRune_step hexDigits_step)
    done
qed


lemma skipRestOfLine_loop_q: "skipRestOfLine_loop s = (c, e, s1) \<Longrightarrow> q s1 = q s"
proof (induction "remaining s" arbitrary: s rule: less_induct)
  case less
  have IH: "\<And>s'. skipRestOfLine_loop s' = (c, e, s1) \<Longrightarrow> remaining s' < remaining s
      \<Longrightarrow> q s1 = q s'"
    by (rule less.hyps)
  from less.prems show ?case
    apply (subst (asm) skipRestOfLine_loop.simps)
    apply (auto split: prod.splits option.splits if_splits dest!: IH readRune_step)
    done
qed

lemma skipRestOfLine_q: "skipRestOfLine s = (c, e, s1) \<Longrightarrow> q s1 = q s"
  by (auto simp: skipRestOfLine_def split: prod.splits option.splits
      dest!: skipRestOfLine_loop_q)

lemma readRune_lastRune:
  "readRune s = (c, None, s1) \<Longrightarrow> c \<noteq> 0x0D \<Longrightarrow> lastRune (r s1) = Some c"
  by (auto simp: readRune_def ReadRune_def UnreadRune_def
      split: list.splits if_splits prod.splits option.splits)

lemma unreadRune_fails:
  "unreadRune s = (Some e, s1) \<Longrightarrow> lastRune (r s) = None"
  by (auto simp: unreadRune_def UnreadRune_def split: prod.splits option.splits)

lemma Peek_pending: "Peek n b = (bs, e, b1) \<Longrightarrow> pending b1 = pending b"
  by (auto simp: Peek_def Let_def)

lemma parseBlankNode_loop_q:
  "parseBlankNode_loop s = (t, e, s1) \<Longrightarrow> q s1 = q s \<and> (e = None \<longrightarrow> Kind t = BlankTerm)"
proof (induction "remaining s" arbitrary: s rule: less_induct)
  case less
  have IH: "\<And>s'. parseBlankNode_loop s' = (t, e, s1) \<Longrightarrow> remaining s' < remaining s
      \<Longrightarrow> q s1 = q s' \<and> (e = None \<longrightarrow> Kind t = BlankTerm)"
    by (rule less.hyps)
  obtain r1 e1 s' where rd: "readRune s = (r1, e1, s')"
    by (cases "readRune s") auto
  note st = readRune_step [OF rd]
  show ?case
  proof (cases "e1 = None \<and> \<not> isPnChars r1 \<and> \<not> isSpace r1 \<and> r1 = RUNE CHR ''.''")
    case False
    with less.prems rd st show ?thesis
      apply (subst (asm) parseBlankNode_loop.simps)
      apply (auto split: option.splits if_splits simp: Blank_def zeroTerm_def dest!: IH)
      done
  next
    case True
    then have e1: "e1 = None" and r1: "r1 = 46"
      by simp_all
    have "lastRune (r s') = Some 46"
      using readRune_lastRune [of s r1 s'] rd e1 r1 by simp
    then have "fst (unreadRune s') = None"
      by (simp add: unreadRune_def UnreadRune_def)
    then obtain s2 where ur: "unreadRune s' = (None, s2)"
      by (cases "unreadRune s'") auto
    have s2: "q s2 = q s'" "remaining s2 \<le> Suc (remaining s')"
      using ur by (auto dest: unreadRune_q unreadRune_remaining)
    obtain nxt perr b3 where pk: "Peek 2 (r s2) = (nxt, perr, b3)"
      by (cases "Peek 2 (r s2)") auto
    let ?s3 = "s2\<lparr>r := b3\<rparr>"
    have s3: "q ?s3 = q s2" "remaining ?s3 = remaining s2"
      using Peek_pending [OF pk] by (simp_all add: remaining_def)
    from less.prems rd True ur pk
    have "(t = Blank (buf ?s3) \<and> e = None \<and> s1 = ?s3)
        \<or> (\<exists>r2 e2 s4. readRune ?s3 = (r2, e2, s4)
              \<and> (case e2 of Some e' \<Rightarrow> t = zeroTerm \<and> e = Some e' \<and> s1 = s4
                  | None \<Rightarrow> parseBlankNode_loop (WriteRune r1 s4) = (t, e, s1)))"
      apply (subst (asm) parseBlankNode_loop.simps)
      apply (auto simp: Let_def split: if_splits prod.splits option.splits)
      done
    then show ?thesis
    proof (elim disjE exE conjE)
      assume "t = Blank (buf ?s3)" "e = None" "s1 = ?s3"
      with s3 s2 st show ?thesis by (simp add: Blank_def zeroTerm_def)
    next
      fix r2 e2 s4
      assume rd2: "readRune ?s3 = (r2, e2, s4)"
        and rest: "case e2 of Some e' \<Rightarrow> t = zeroTerm \<and> e = Some e' \<and> s1 = s4
                  | None \<Rightarrow> parseBlankNode_loop (WriteRune r1 s4) = (t, e, s1)"
      note st2 = readRune_step [OF rd2]
      show ?thesis
      proof (cases e2)
        case (Some e')
        with rest st2 s3 s2 st show ?thesis by simp
      next
        case None
        with rest have rec: "parseBlankNode_loop (WriteRune r1 s4) = (t, e, s1)"
          by simp
        have "remaining (WriteRune r1 s4) < remaining s"
          using st st2 s2 s3 e1 None by simp
        from IH [OF rec this] st st2 s2 s3 show ?thesis by simp
      qed
    qed
  qed
qed

lemma parseBlankNode_q:
  "parseBlankNode s = (t, e, s1) \<Longrightarrow> q s1 = q s \<and> (e = None \<longrightarrow> Kind t = BlankTerm)"
  by (auto simp: parseBlankNode_def split: prod.splits option.splits if_splits
      dest!: parseBlankNode_loop_q readRune_step)

lemma parseLiteral_language_q:
  "parseLiteral_language v m s = (t, e, s1) \<Longrightarrow>
   q s1 = q s \<and> (e = None \<longrightarrow> Kind t = LiteralTerm)"
proof (induction "remaining s" arbitrary: s m rule: less_induct)
  case less
  have IH: "\<And>s' m'. parseLiteral_language v m' s' = (t, e, s1) \<Longrightarrow> remaining s' < remaining s
      \<Longrightarrow> q s1 = q s' \<and> (e = None \<longrightarrow> Kind t = LiteralTerm)"
    by (rule less.hyps)
  from less.prems show ?case
    apply (subst (asm) parseLiteral_language.simps)
    apply (auto split: prod.splits option.splits if_splits
        simp: LiteralWithLanguage_def zeroTerm_def
        dest!: IH readRune_step unreadRune_q)
    done
qed

lemma parseLiteral_datatype_q:
  "parseLiteral_datatype v s = (t, e, s1) \<Longrightarrow>
   q s1 = q s \<and> (e = None \<longrightarrow> Kind t = LiteralTerm)"
proof (induction "remaining s" arbitrary: s rule: less_induct)
  case less
  have IH: "\<And>s'. parseLiteral_datatype v s' = (t, e, s1) \<Longrightarrow> remaining s' < remaining s
      \<Longrightarrow> q s1 = q s' \<and> (e = None \<longrightarrow> Kind t = LiteralTerm)"
    by (rule less.hyps)
  from less.prems show ?case
    apply (subst (asm) parseLiteral_datatype.simps)
    apply (auto split: prod.splits option.splits if_splits
        simp: LiteralWithDatatype_def zeroTerm_def
        dest!: IH readRune_step)
    done
qed

lemma parseLiteral_q:
  "parseLiteral s = (t, e, s1) \<Longrightarrow>
   q s1 = q s \<and> (e = None \<longrightarrow> Kind t = LiteralTerm)"
proof (induction "remaining s" arbitrary: s rule: less_induct)
  case less
  have IH: "\<And>s'. parseLiteral s' = (t, e, s1) \<Longrightarrow> remaining s' < remaining s
      \<Longrightarrow> q s1 = q s' \<and> (e = None \<longrightarrow> Kind t = LiteralTerm)"
    by (rule less.hyps)
  from less.prems show ?case
    apply (subst (asm) parseLiteral.simps)
    apply (auto split: prod.splits option.splits if_splits sum.splits
        simp: Literal_def zeroTerm_def Let_def
        dest!: IH readRune_step hexDigits_step unreadRune_q
          parseLiteral_language_q parseLiteral_datatype_q)
    done
qed

lemma parseIriOrBlankNode_q:
  "parseIriOrBlankNode s = (t, e, s1) \<Longrightarrow>
   q s1 = q s \<and> (e = None \<longrightarrow> Kind t \<noteq> UnknownTerm)"
  by (auto simp: parseIriOrBlankNode_def split: prod.splits option.splits if_splits
      dest!: skipWhitespace_q parseIRI_q parseBlankNode_q)

lemma parseAnyTerm_q:
  "parseAnyTerm s = (t, e, s1) \<Longrightarrow>
   q s1 = q s \<and> (e = None \<longrightarrow> Kind t \<noteq> UnknownTerm)"
  by (auto simp: parseAnyTerm_def split: prod.splits option.splits if_splits
      dest!: skipWhitespace_q parseIRI_q parseBlankNode_q parseLiteral_q)

lemma parseIriOrBlankNodeOrEndTriple_q:
  "parseIriOrBlankNodeOrEndTriple s = (end, t, e, s1) \<Longrightarrow> q s1 = q s"
  by (auto simp: parseIriOrBlankNodeOrEndTriple_def split: prod.splits option.splits if_splits
      dest!: skipWhitespace_q parseIRI_q parseBlankNode_q)

lemma readEndQuad_q: "readEndQuad s = (e, s1) \<Longrightarrow> q s1 = q s"
  by (auto simp: readEndQuad_def split: prod.splits option.splits if_splits
      dest!: skipWhitespace_q)

lemma expectCommentOrEndOfLine_q: "expectCommentOrEndOfLine s = (e, s1) \<Longrightarrow> q s1 = q s"
  by (auto simp: expectCommentOrEndOfLine_def split: prod.splits option.splits if_splits
      dest!: skipWhitespace_q skipRestOfLine_q)

lemma skipWhitespace_step:
  "skipWhitespace s = (c, e, s1) \<Longrightarrow> q s1 = q s \<and> (e = None \<longrightarrow> remaining s1 < remaining s)"
  by (cases e) (auto dest: skipWhitespace_q skipWhitespace_remaining)

lemma skipRestOfLine_step:
  "skipRestOfLine s = (c, e, s1) \<Longrightarrow> q s1 = q s \<and> (e = None \<longrightarrow> remaining s1 < remaining s)"
  by (cases e) (auto dest: skipRestOfLine_q skipRestOfLine_remaining)

lemma Next_skip_q: "Next_skip s = (b, s1) \<Longrightarrow> q s1 = q s"
proof (induction "remaining s" arbitrary: s rule: less_induct)
  case less
  have IH: "\<And>s'. Next_skip s' = (b, s1) \<Longrightarrow> remaining s' < remaining s \<Longrightarrow> q s1 = q s'"
    by (rule less.hyps)
  from less.prems show ?case
    apply (subst (asm) Next_skip.simps)
    apply (auto split: prod.splits option.splits if_splits
        dest!: IH skipWhitespace_step skipRestOfLine_step)
    done
qed

lemma zeroTerm_Kind [simp]: "Kind zeroTerm = UnknownTerm"
  by (simp add: zeroTerm_def)

text \<open>
  C2 (as stated, it fails). After the subject \<^verbatim>\<open><a:s>\<close> the rune \<^verbatim>\<open>x\<close> cannot start a
  predicate: \<^verbatim>\<open>Next\<close> fails with an error, and \<^verbatim>\<open>Quad\<close> still holds the subject.
\<close>

theorem Next_partial_quad_observable:
  "\<not> fst (Next (NewReader (map RUNE ''<a:s> x'')))
   \<and> Err (snd (Next (NewReader (map RUNE ''<a:s> x''))))
       = Some (ParseError 1 7 ErrUnexpectedCharacter)
   \<and> Quad (snd (Next (NewReader (map RUNE ''<a:s> x'')))) = zeroQuad\<lparr>S := IRI ''a:s''\<rparr>
   \<and> Quad (snd (Next (NewReader (map RUNE ''<a:s> x'')))) \<noteq> zeroQuad"
  by code_simp

text \<open>
  C2 (amended). A call of \<^verbatim>\<open>Next\<close> that fails with an error leaves in the quad the
  terms it accepted before the error, in the order subject, predicate, object, graph:
  the quad is the zero quad when no subject was accepted, and a slot is filled only if
  the slots before it are.
\<close>

theorem Next_failure_quad:
  assumes "Err s = None" and "Next s = (False, s1)" and "Err s1 \<noteq> None"
  shows "(S (Quad s1) = zeroTerm \<longrightarrow> Quad s1 = zeroQuad)
       \<and> (P (Quad s1) = zeroTerm \<longrightarrow> O' (Quad s1) = zeroTerm \<and> G (Quad s1) = zeroTerm)
       \<and> (O' (Quad s1) = zeroTerm \<longrightarrow> G (Quad s1) = zeroTerm)"
  using assms
  apply (simp add: Next_def Err_def Quad_def Let_def
      split: prod.splits option.splits if_splits bool.splits)
  apply (auto simp: zeroQuad_def
      dest!: Next_skip_q parseIriOrBlankNode_q parseAnyTerm_q
        parseIriOrBlankNodeOrEndTriple_q readEndQuad_q expectCommentOrEndOfLine_q)
  done

theorem Next_failure_quad_witness:
  "Err (NewReader (map RUNE ''x'')) = None
   \<and> Next (NewReader (map RUNE ''x'')) = (False, snd (Next (NewReader (map RUNE ''x''))))
   \<and> Err (snd (Next (NewReader (map RUNE ''x'')))) \<noteq> None
   \<and> S (Quad (snd (Next (NewReader (map RUNE ''x''))))) = zeroTerm
   \<and> Quad (snd (Next (NewReader (map RUNE ''x'')))) = zeroQuad
   \<and> Err (NewReader (map RUNE ''<a:s> x'')) = None
   \<and> Next (NewReader (map RUNE ''<a:s> x''))
       = (False, snd (Next (NewReader (map RUNE ''<a:s> x''))))
   \<and> Err (snd (Next (NewReader (map RUNE ''<a:s> x'')))) \<noteq> None
   \<and> P (Quad (snd (Next (NewReader (map RUNE ''<a:s> x''))))) = zeroTerm
   \<and> O' (Quad (snd (Next (NewReader (map RUNE ''<a:s> x''))))) = zeroTerm
   \<and> G (Quad (snd (Next (NewReader (map RUNE ''<a:s> x''))))) = zeroTerm"
proof -
  let ?a = "NewReader (map RUNE ''x'')"
  let ?b = "NewReader (map RUNE ''<a:s> x'')"
  have a1: "Err ?a = None"
    by code_simp
  have a2: "Next ?a = (False, snd (Next ?a))"
    by code_simp
  have a3: "Err (snd (Next ?a)) \<noteq> None"
    by code_simp
  have a4: "S (Quad (snd (Next ?a))) = zeroTerm"
    by code_simp
  have b1: "Err ?b = None"
    by code_simp
  have b2: "Next ?b = (False, snd (Next ?b))"
    by code_simp
  have b3: "Err (snd (Next ?b)) \<noteq> None"
    by code_simp
  have b4: "P (Quad (snd (Next ?b))) = zeroTerm"
    by code_simp
  from Next_failure_quad [OF a1 a2 a3] a4 have a5: "Quad (snd (Next ?a)) = zeroQuad"
    by blast
  from Next_failure_quad [OF b1 b2 b3] b4
  have b5: "O' (Quad (snd (Next ?b))) = zeroTerm" "G (Quad (snd (Next ?b))) = zeroTerm"
    by blast+
  from a1 a2 a3 a4 a5 b1 b2 b3 b4 b5 show ?thesis
    by (intro conjI)
qed

subsection \<open>The period in a blank node label\<close>

lemma encodeRune_ascii: "0 \<le> c \<Longrightarrow> c < 0x80 \<Longrightarrow> encodeRune c = [char_of c]"
  by (simp add: encodeRune_def)

lemma encodeRune_period [simp]: "encodeRune 0x2E = ''.''"
  by (simp add: encodeRune_def char_of_def)

lemma encodeRune_nonempty: "\<exists>b bs. encodeRune c = b # bs"
  by (simp add: encodeRune_def)

lemma encodeRune_lead:
  assumes "0 \<le> k" and "k < 0x80"
  shows "hd (encodeRune c) = char_of k \<longleftrightarrow> c = k"
proof (cases "0 \<le> c \<and> c < 0x80")
  case True
  then have "hd (encodeRune c) = char_of c"
    by (simp add: encodeRune_def)
  moreover have "char_of c = (char_of k :: char) \<longleftrightarrow> c = k"
    using True assms by (simp add: char_of_eq_iff take_bit_eq_mod)
  ultimately show ?thesis by simp
next
  case False
  then have ck: "c \<noteq> k"
    using assms by auto
  have lead: "\<exists>n. hd (encodeRune c) = char_of n \<and> (0x80::int) \<le> n \<and> n < 0x100"
  proof -
    consider "0 \<le> c \<and> c < 0x800" | "c < 0 \<or> 0x10FFFF < c \<or> (0xD800 \<le> c \<and> c \<le> 0xDFFF)"
      | "0x800 \<le> c \<and> c < 0x10000 \<and> \<not> (0xD800 \<le> c \<and> c \<le> 0xDFFF)"
      | "0x10000 \<le> c \<and> c \<le> 0x10FFFF"
      by linarith
    then show ?thesis
    proof cases
      case 1
      with False have "hd (encodeRune c) = char_of (0xC0 + c div 64)"
        by (simp add: encodeRune_def)
      moreover have "0x80 \<le> 0xC0 + c div 64 \<and> 0xC0 + c div 64 < 0x100"
        using 1 False by auto
      ultimately show ?thesis by blast
    next
      case 2
      then have "hd (encodeRune c) = CHR 0xEF"
        by (auto simp: encodeRune_def)
      moreover have "CHR 0xEF = char_of (0xEF::int)"
        by (simp add: char_of_def)
      ultimately show ?thesis by (intro exI [of _ "0xEF"]) simp
    next
      case 3
      then have "hd (encodeRune c) = char_of (0xE0 + c div 4096)"
        by (auto simp: encodeRune_def)
      moreover have "0x80 \<le> 0xE0 + c div 4096 \<and> 0xE0 + c div 4096 < 0x100"
        using 3 by auto
      ultimately show ?thesis by blast
    next
      case 4
      then have "hd (encodeRune c) = char_of (0xF0 + c div 262144)"
        by (auto simp: encodeRune_def)
      moreover have "0x80 \<le> 0xF0 + c div 262144 \<and> 0xF0 + c div 262144 < 0x100"
        using 4 by auto
      ultimately show ?thesis by blast
    qed
  qed
  then obtain n where n: "hd (encodeRune c) = char_of n" "(0x80::int) \<le> n" "n < 0x100"
    by blast
  have "char_of n \<noteq> (char_of k :: char)"
    using n assms by (simp add: char_of_eq_iff take_bit_eq_mod)
  with n ck show ?thesis by simp
qed


lemma Peek_period_end:
  "pending b = [0x2E] \<Longrightarrow> Peek 2 b = (''.'', Some EOF, b\<lparr>lastRune := None\<rparr>)"
  by (simp add: Peek_def)

lemma Peek_period_next:
  "pending b = 0x2E # c # cs \<Longrightarrow>
   Peek 2 b = ([CHR ''.'', hd (encodeRune c)], None, b\<lparr>lastRune := None\<rparr>)"
proof -
  obtain x xs where "encodeRune c = x # xs"
    using encodeRune_nonempty by blast
  then show "pending b = 0x2E # c # cs \<Longrightarrow> ?thesis"
    by (simp add: Peek_def)
qed

text \<open>
  C5. At a period inside a blank node label, the label loop looks ahead: when the input
  ends at the period, or the rune after it is a space, a tab, a line feed or a carriage
  return, the loop returns the label read so far and the period is left unread; otherwise
  the period is appended to the label and the loop goes on with the rune after it.
\<close>

theorem parseBlankNode_period_lookahead:
  assumes "pending (r s) = RUNE CHR ''.'' # rest"
  shows "(rest = [] \<or> hd rest \<in> {0x20, 0x09, 0x0A, 0x0D} \<longrightarrow>
            parseBlankNode_loop s = (Blank (buf s), None, s\<lparr>r := (r s)\<lparr>lastRune := None\<rparr>\<rparr>))
       \<and> (rest \<noteq> [] \<and> hd rest \<notin> {0x20, 0x09, 0x0A, 0x0D} \<longrightarrow>
            parseBlankNode_loop s =
              parseBlankNode_loop
                (s\<lparr>r := (r s)\<lparr>pending := rest, lastRune := Some (RUNE CHR ''.'')\<rparr>,
                    column := column s + 1, buf := buf s @ ''.''\<rparr>))"
proof -
  let ?s1 = "s\<lparr>r := (r s)\<lparr>pending := rest, lastRune := Some 0x2E\<rparr>, column := column s + 1\<rparr>"
  let ?s3 = "s\<lparr>r := (r s)\<lparr>lastRune := None\<rparr>\<rparr>"
  have rd: "readRune s = (0x2E, None, ?s1)"
    using assms by (simp add: readRune_plain)
  have ur: "unreadRune ?s1 = (None, s\<lparr>r := (r s)\<lparr>pending := 0x2E # rest, lastRune := None\<rparr>\<rparr>)"
    by (simp add: unreadRune_def UnreadRune_def)
  have same: "s\<lparr>r := (r s)\<lparr>pending := 0x2E # rest, lastRune := None\<rparr>\<rparr> = ?s3"
    using assms by simp
  have cls: "\<not> isPnChars 0x2E" "\<not> isSpace 0x2E"
    by (simp_all add: isPnChars_def isPnCharsU_def isPnCharsBase_def isNumeral_def
        isAlpha_def isSpace_def)
  have ws: "CHR '' '' = char_of (0x20::int)" "CHR 0x09 = char_of (0x09::int)"
    "CHR 0x0A = char_of (0x0A::int)" "CHR 0x0D = char_of (0x0D::int)"
    by (simp_all add: char_of_def)
  have unfold: "parseBlankNode_loop s =
      (case Peek 2 (r ?s3) of (next, perr, b3) \<Rightarrow>
         let s3 = ?s3\<lparr>r := b3\<rparr> in
         if perr = Some EOF then (Blank (buf s3), None, s3)
         else if next ! 1 = CHR '' '' \<or> next ! 1 = CHR 0x09
                 \<or> next ! 1 = CHR 0x0A \<or> next ! 1 = CHR 0x0D
         then (Blank (buf s3), None, s3)
         else (case readRune s3 of
                 (r2, Some e, s4) \<Rightarrow> (zeroTerm, Some e, s4)
               | (r2, None, s4) \<Rightarrow> parseBlankNode_loop (WriteRune 0x2E s4)))"
    by (subst parseBlankNode_loop.simps) (simp add: rd ur same cls)
  have A: "parseBlankNode_loop s = (Blank (buf s), None, ?s3)" if "rest = []"
    using that assms by (simp add: unfold Peek_period_end)
  have B: "parseBlankNode_loop s = (Blank (buf s), None, ?s3)"
    if "rest = c # cs" "c \<in> {0x20, 0x09, 0x0A, 0x0D}" for c cs
  proof -
    have "hd (encodeRune c) = CHR '' '' \<or> hd (encodeRune c) = CHR 0x09
        \<or> hd (encodeRune c) = CHR 0x0A \<or> hd (encodeRune c) = CHR 0x0D"
      using that(2) unfolding ws by (auto simp: encodeRune_lead)
    then show ?thesis
      using that(1) assms by (auto simp: unfold Peek_period_next)
  qed
  have C: "parseBlankNode_loop s =
      parseBlankNode_loop (?s1\<lparr>buf := buf s @ ''.''\<rparr>)"
    if "rest = c # cs" "c \<notin> {0x20, 0x09, 0x0A, 0x0D}" for c cs
  proof -
    have no: "hd (encodeRune c) \<noteq> CHR '' ''" "hd (encodeRune c) \<noteq> CHR 0x09"
      "hd (encodeRune c) \<noteq> CHR 0x0A" "hd (encodeRune c) \<noteq> CHR 0x0D"
      using that(2) unfolding ws by (simp_all add: encodeRune_lead)
    have rd2: "readRune ?s3 = (0x2E, None, ?s1)"
      using assms by (simp add: readRune_def ReadRune_def)
    show ?thesis
      using that(1) assms no
      by (simp add: unfold Peek_period_next rd2 WriteRune_def)
  qed
  show ?thesis
  proof (cases rest)
    case Nil
    with A show ?thesis by simp
  next
    case (Cons c cs)
    with B [of c cs] C [of c cs] show ?thesis by auto
  qed
qed

theorem parseBlankNode_period_lookahead_witness:
  "pending (r ((NewReader (map RUNE ''.''))\<lparr>buf := ''a''\<rparr>)) = RUNE CHR ''.'' # []
   \<and> parseBlankNode_loop ((NewReader (map RUNE ''.''))\<lparr>buf := ''a''\<rparr>)
       = (Blank ''a'', None, (NewReader (map RUNE ''.''))\<lparr>buf := ''a''\<rparr>)
   \<and> pending (r ((NewReader (map RUNE ''. ''))\<lparr>buf := ''a''\<rparr>)) = RUNE CHR ''.'' # [0x20]
   \<and> parseBlankNode_loop ((NewReader (map RUNE ''. ''))\<lparr>buf := ''a''\<rparr>)
       = (Blank ''a'', None, (NewReader (map RUNE ''. ''))\<lparr>buf := ''a''\<rparr>)
   \<and> pending (r ((NewReader (map RUNE ''.b ''))\<lparr>buf := ''a''\<rparr>)) = RUNE CHR ''.'' # map RUNE ''b ''
   \<and> parseBlankNode_loop ((NewReader (map RUNE ''.b ''))\<lparr>buf := ''a''\<rparr>)
       = parseBlankNode_loop
           ((NewReader (map RUNE ''b ''))
              \<lparr>r := \<lparr>pending = map RUNE ''b '', lastRune = Some (RUNE CHR ''.'')\<rparr>,
               column := 1, buf := ''a.''\<rparr>)
   \<and> fst (parseBlankNode (NewReader (map RUNE '':a.''))) = Blank ''a''
   \<and> fst (parseBlankNode (NewReader (map RUNE '':a. ''))) = Blank ''a''
   \<and> fst (parseBlankNode (NewReader (map RUNE '':a.b ''))) = Blank ''a.b''"
proof -
  let ?a = "(NewReader (map RUNE ''.''))\<lparr>buf := ''a''\<rparr>"
  let ?b = "(NewReader (map RUNE ''. ''))\<lparr>buf := ''a''\<rparr>"
  let ?c = "(NewReader (map RUNE ''.b ''))\<lparr>buf := ''a''\<rparr>"
  have ha: "pending (r ?a) = RUNE CHR ''.'' # []"
    by (simp add: NewReader_def)
  have hb: "pending (r ?b) = RUNE CHR ''.'' # [0x20]"
    by (simp add: NewReader_def)
  have hc: "pending (r ?c) = RUNE CHR ''.'' # map RUNE ''b ''"
    by (simp add: NewReader_def)
  have a: "parseBlankNode_loop ?a = (Blank ''a'', None, ?a)"
    using parseBlankNode_period_lookahead [OF ha] by (simp add: NewReader_def)
  have b: "parseBlankNode_loop ?b = (Blank ''a'', None, ?b)"
    using parseBlankNode_period_lookahead [OF hb] by (simp add: NewReader_def)
  have c: "parseBlankNode_loop ?c
      = parseBlankNode_loop
           ((NewReader (map RUNE ''b ''))
              \<lparr>r := \<lparr>pending = map RUNE ''b '', lastRune = Some (RUNE CHR ''.'')\<rparr>,
               column := 1, buf := ''a.''\<rparr>)"
    using parseBlankNode_period_lookahead [OF hc] by (simp add: NewReader_def)
  have e1: "fst (parseBlankNode (NewReader (map RUNE '':a.''))) = Blank ''a''"
    by code_simp
  have e2: "fst (parseBlankNode (NewReader (map RUNE '':a. ''))) = Blank ''a''"
    by code_simp
  have e3: "fst (parseBlankNode (NewReader (map RUNE '':a.b ''))) = Blank ''a.b''"
    by code_simp
  from ha hb hc a b c e1 e2 e3 show ?thesis
    by (intro conjI)
qed

subsection \<open>Numeric escapes that are no scalar value\<close>

lemma int32_add_left: "int32 (int32 a + b) = int32 (a + b)"
  by (simp add: int32_def mod_simps algebra_simps)

lemma int32_add_right: "int32 (a + int32 b) = int32 (a + b)"
  by (simp add: int32_def mod_simps algebra_simps)

lemma hexDigits_step_digit:
  assumes "pending (r s) = d # cs" and "isHexDigit d"
  shows "hexDigits (Suc i) cp s =
     hexDigits i (int32 (cp + int32 (2 ^ (4 * i) * hexValue d)))
       (s\<lparr>r := (r s)\<lparr>pending := cs, lastRune := Some d\<rparr>, column := column s + 1\<rparr>)"
proof -
  have "d \<noteq> 0x0D"
    using assms(2) by (auto simp: isHexDigit_def)
  with assms(1) have "readRune s =
      (d, None, s\<lparr>r := (r s)\<lparr>pending := cs, lastRune := Some d\<rparr>, column := column s + 1\<rparr>)"
    by (rule readRune_plain)
  with assms(2) show ?thesis
    by (auto simp: isHexDigit_def hexValue_def)
qed

lemma hexDigits_decodes:
  "pending (r s) = ds @ [d] @ rest \<Longrightarrow> list_all isHexDigit (ds @ [d]) \<Longrightarrow>
   hexDigits (length (ds @ [d])) cp s =
     (Inr (int32 (cp + hexNumber (ds @ [d]))),
      s\<lparr>r := (r s)\<lparr>pending := rest, lastRune := Some d\<rparr>,
        column := column s + int (length (ds @ [d]))\<rparr>)"
proof (induction ds arbitrary: s cp)
  case Nil
  then have "pending (r s) = d # rest" and "isHexDigit d"
    by simp_all
  from hexDigits_step_digit [OF this, of 0 cp] show ?case
    by (simp add: int32_add_right del: hexDigits.simps(2))
next
  case (Cons x xs)
  let ?s1 = "s\<lparr>r := (r s)\<lparr>pending := xs @ [d] @ rest, lastRune := Some x\<rparr>,
               column := column s + 1\<rparr>"
  let ?cp1 = "int32 (cp + int32 (2 ^ (4 * length (xs @ [d])) * hexValue x))"
  have "(2::int) ^ (4 * n) = 16 ^ n" for n :: nat
    by (simp add: power_mult)
  then have p: "(2::int) ^ (4 * length (xs @ [d])) = 16 ^ length (xs @ [d])" .
  have "hexDigits (length ((x # xs) @ [d])) cp s = hexDigits (length (xs @ [d])) ?cp1 ?s1"
    using Cons.prems hexDigits_step_digit [of s x "xs @ [d] @ rest" "length (xs @ [d])" cp]
    by (simp del: hexDigits.simps(2))
  also have "\<dots> = (Inr (int32 (?cp1 + hexNumber (xs @ [d]))),
      ?s1\<lparr>r := (r ?s1)\<lparr>pending := rest, lastRune := Some d\<rparr>,
          column := column ?s1 + int (length (xs @ [d]))\<rparr>)"
    using Cons.prems by (intro Cons.IH) simp_all
  also have "int32 (?cp1 + hexNumber (xs @ [d])) = int32 (cp + hexNumber ((x # xs) @ [d]))"
    unfolding p by (simp add: int32_add_left int32_add_right algebra_simps)
  finally show ?case
    by simp
qed


lemma encodeRune_invalid:
  "\<not> ValidRune c \<Longrightarrow> encodeRune c = [CHR 0xEF, CHR 0xBF, CHR 0xBD]"
  by (auto simp: encodeRune_def ValidRune_def)

text \<open>
  C9. A numeric escape whose four or eight digits are all hexadecimal, but whose value
  as an \<^verbatim>\<open>int32\<close> is no Unicode scalar value, is not an error, neither in an IRI nor
  in a literal: both lexers go on as if they had read the escape and written U+FFFD
  (the bytes EF BF BD) to the buffer.
\<close>

theorem numeric_escape_replacement:
  assumes "pending (r s) = 0x5C # u # ds @ rest"
    and "u = RUNE CHR ''u'' \<and> length ds = 4 \<or> u = RUNE CHR ''U'' \<and> length ds = 8"
    and "list_all isHexDigit ds"
    and "\<not> ValidRune (int32 (hexNumber ds))"
  shows "parseIRI s =
           parseIRI (s\<lparr>r := (r s)\<lparr>pending := rest, lastRune := Some (last ds)\<rparr>,
                        column := column s + 2 + int (length ds),
                        buf := buf s @ [CHR 0xEF, CHR 0xBF, CHR 0xBD]\<rparr>)
       \<and> parseLiteral s =
           parseLiteral (s\<lparr>r := (r s)\<lparr>pending := rest, lastRune := Some (last ds)\<rparr>,
                            column := column s + 2 + int (length ds),
                            buf := buf s @ [CHR 0xEF, CHR 0xBF, CHR 0xBD]\<rparr>)"
proof -
  let ?s1 = "s\<lparr>r := (r s)\<lparr>pending := u # ds @ rest, lastRune := Some 0x5C\<rparr>,
               column := column s + 1\<rparr>"
  let ?s2 = "s\<lparr>r := (r s)\<lparr>pending := ds @ rest, lastRune := Some u\<rparr>,
               column := column s + 2\<rparr>"
  let ?s3 = "s\<lparr>r := (r s)\<lparr>pending := rest, lastRune := Some (last ds)\<rparr>,
               column := column s + 2 + int (length ds)\<rparr>"
  let ?n = "if u = RUNE CHR ''U'' then 8 else 4 :: nat"
  have u: "u = 117 \<or> u = 85"
    using assms(2) by auto
  have ul: "u = 117 \<and> length ds = 4 \<or> u = 85 \<and> length ds = 8"
    using assms(2) by auto
  have n: "?n = length ds"
    using assms(2) by auto
  have rd1: "readRune s = (0x5C, None, ?s1)"
    using assms(1) by (simp add: readRune_plain)
  have rd2: "readRune ?s1 = (u, None, ?s2)"
    using u by (auto simp: readRune_def ReadRune_def)
  have "ds \<noteq> []"
    using assms(2) by auto
  then obtain xs d where ds: "ds = xs @ [d]"
    by (metis append_butlast_last_id)
  have pend: "pending (r ?s2) = xs @ [d] @ rest"
    by (simp add: ds)
  have hex: "list_all isHexDigit (xs @ [d])"
    using assms(3) by (simp add: ds)
  have hx: "hexDigits (length ds) 0 ?s2 = (Inr (int32 (hexNumber ds)), ?s3)"
    using hexDigits_decodes [OF pend hex, of 0] by (simp add: ds)
  have wr: "WriteRune (int32 (hexNumber ds)) ?s3 = ?s3\<lparr>buf := buf s @ [CHR 0xEF, CHR 0xBF, CHR 0xBD]\<rparr>"
    using assms(4) by (simp add: WriteRune_def encodeRune_invalid)
  consider (small) "u = 117" "length ds = 4" | (big) "u = 85" "length ds = 8"
    using assms(2) by auto
  then have iri: "parseIRI s = parseIRI (WriteRune (int32 (hexNumber ds)) ?s3)"
  proof cases
    case small
    with rd1 rd2 hx show ?thesis
      by (subst parseIRI.simps) (simp del: hexDigits.simps)
  next
    case big
    with rd1 rd2 hx show ?thesis
      by (subst parseIRI.simps) (simp del: hexDigits.simps)
  qed
  from ul
  have lit: "parseLiteral s = parseLiteral (WriteRune (int32 (hexNumber ds)) ?s3)"
  proof (elim disjE conjE)
    assume "u = 117" "length ds = 4"
    with rd1 rd2 hx show ?thesis
      by (subst parseLiteral.simps) (simp del: hexDigits.simps)
  next
    assume "u = 85" "length ds = 8"
    with rd1 rd2 hx show ?thesis
      by (subst parseLiteral.simps) (simp del: hexDigits.simps)
  qed
  from iri lit show ?thesis
    unfolding wr by simp
qed


theorem numeric_escape_replacement_witness:
  "pending (r (NewReader (0x5C # RUNE CHR ''U'' # map RUNE ''FFFFFFFF'' @ map RUNE ''>'')))
     = 0x5C # RUNE CHR ''U'' # map RUNE ''FFFFFFFF'' @ map RUNE ''>''
   \<and> length (map RUNE ''FFFFFFFF'') = 8
   \<and> list_all isHexDigit (map RUNE ''FFFFFFFF'')
   \<and> int32 (hexNumber (map RUNE ''FFFFFFFF'')) = - 1
   \<and> \<not> ValidRune (int32 (hexNumber (map RUNE ''FFFFFFFF'')))
   \<and> parseIRI (NewReader (0x5C # RUNE CHR ''U'' # map RUNE ''FFFFFFFF'' @ map RUNE ''>''))
       = parseIRI
           ((NewReader (map RUNE ''>''))
              \<lparr>r := \<lparr>pending = map RUNE ''>'', lastRune = Some (RUNE CHR ''F'')\<rparr>,
               column := 10, buf := [CHR 0xEF, CHR 0xBF, CHR 0xBD]\<rparr>)
   \<and> parseLiteral (NewReader (0x5C # RUNE CHR ''U'' # map RUNE ''FFFFFFFF'' @ map RUNE ''>''))
       = parseLiteral
           ((NewReader (map RUNE ''>''))
              \<lparr>r := \<lparr>pending = map RUNE ''>'', lastRune = Some (RUNE CHR ''F'')\<rparr>,
               column := 10, buf := [CHR 0xEF, CHR 0xBF, CHR 0xBD]\<rparr>)
   \<and> fst (parseIRI (NewReader (0x5C # RUNE CHR ''U'' # map RUNE ''FFFFFFFF'' @ map RUNE ''>'')))
       = IRI [CHR 0xEF, CHR 0xBF, CHR 0xBD]
   \<and> fst (parseLiteral (NewReader (0x5C # RUNE CHR ''u'' # map RUNE ''D800'' @ [0x22, 0x20])))
       = Literal [CHR 0xEF, CHR 0xBF, CHR 0xBD]"
proof -
  let ?s = "NewReader (0x5C # RUNE CHR ''U'' # map RUNE ''FFFFFFFF'' @ map RUNE ''>'')"
  have h1: "pending (r ?s) = 0x5C # RUNE CHR ''U'' # map RUNE ''FFFFFFFF'' @ map RUNE ''>''"
    by (simp add: NewReader_def)
  have len: "length (map RUNE ''FFFFFFFF'') = 8"
    by simp
  then have h2: "RUNE CHR ''U'' = RUNE CHR ''u'' \<and> length (map RUNE ''FFFFFFFF'') = 4
      \<or> RUNE CHR ''U'' = RUNE CHR ''U'' \<and> length (map RUNE ''FFFFFFFF'') = 8"
    by simp
  have h3: "list_all isHexDigit (map RUNE ''FFFFFFFF'')"
    by code_simp
  have v: "int32 (hexNumber (map RUNE ''FFFFFFFF'')) = - 1"
    by code_simp
  have h4: "\<not> ValidRune (int32 (hexNumber (map RUNE ''FFFFFFFF'')))"
    by code_simp
  have st: "?s\<lparr>r := (r ?s)\<lparr>pending := map RUNE ''>'',
                           lastRune := Some (last (map RUNE ''FFFFFFFF''))\<rparr>,
               column := column ?s + 2 + int (length (map RUNE ''FFFFFFFF'')),
               buf := buf ?s @ [CHR 0xEF, CHR 0xBF, CHR 0xBD]\<rparr>
      = (NewReader (map RUNE ''>''))
              \<lparr>r := \<lparr>pending = map RUNE ''>'', lastRune = Some (RUNE CHR ''F'')\<rparr>,
               column := 10, buf := [CHR 0xEF, CHR 0xBF, CHR 0xBD]\<rparr>"
    by (simp add: NewReader_def)
  have e1: "fst (parseIRI ?s) = IRI [CHR 0xEF, CHR 0xBF, CHR 0xBD]"
    by code_simp
  have e2: "fst (parseLiteral (NewReader (0x5C # RUNE CHR ''u'' # map RUNE ''D800'' @ [0x22, 0x20])))
       = Literal [CHR 0xEF, CHR 0xBF, CHR 0xBD]"
    by code_simp
  from numeric_escape_replacement [OF h1 h2 h3 h4] h1 len h3 v h4 e1 e2 show ?thesis
    unfolding st by (intro conjI) simp_all
qed

end
